theory Spec2Isabelle
  imports Complex_Main "HOL-Library.Sublist" "HOL-Library.Multiset" "HOL-Library.AList"
    "HOL-Library.Log_Nat"
begin

section \<open>Data model of pseudo\_finder.py\<close>

text \<open>
  Python integers are unbounded: \<^typ>\<open>int\<close>.  A Python float (an e-value, a cutoff, a
  ratio) is modelled by the rational it denotes; comparisons agree.  In the merge criteria
  the quotient of the two counts is the exact one.  In the individual-region classifier,
  where the quotient is also printed, every float operation is rounded to the nearest
  double.

  The merge engine compares start coordinates with \<^verbatim>\<open>is not\<close>, that is by the
  identity of the integer objects.  A start coordinate is therefore an integer object: its
  value and the identity of its allocation.  In CPython the integers from -5 to 256 are
  shared singletons, so for them identity is equality of values; any other integer object
  is identical only to itself.
\<close>

datatype pyint = PyInt (ival: int) (oid: nat)

definition py_is :: "pyint \<Rightarrow> pyint \<Rightarrow> bool" where
  "py_is a b = (ival a = ival b \<and> ((- 5 \<le> ival a \<and> ival a \<le> 256) \<or> oid a = oid b))"

text \<open>\<^verbatim>\<open>BlastHit\<close>: a NamedTuple, compared and hashed by its fields.\<close>

record BlastHit =
  accession :: string
  slen :: int
  s_start :: int
  s_end :: int
  eval :: rat

text \<open>
  \<^verbatim>\<open>RegionInfo\<close>.  The fields \<^verbatim>\<open>end\<close> and \<^verbatim>\<open>note\<close> are keywords of Isabelle and
  carry a prime here.
\<close>

record RegionInfo =
  contig :: string
  query :: string
  start :: pyint
  end' :: int
  strand :: string
  hits :: "BlastHit list"
  note' :: string

text \<open>
  The exceptions the modelled functions can raise; \<open>ReError\<close> is \<^verbatim>\<open>re.error\<close>, raised for
  a pattern that is not a regular expression.
\<close>

datatype error = IndexError | KeyError | ValueError | ZeroDivisionError | ReError

section \<open>Merge criteria\<close>

text \<open>\<^verbatim>\<open>number_of_matching_hits\<close> (lines 445-453).\<close>

definition number_of_matching_hits :: "RegionInfo \<Rightarrow> RegionInfo \<Rightarrow> nat" where
  "number_of_matching_hits r1 r2 =
     (let r1_accessions = set (map accession (hits r1));
          r2_accessions = set (map accession (hits r2))
      in card (r1_accessions \<inter> r2_accessions))"

text \<open>
  \<^verbatim>\<open>matching_hit_critera\<close> (lines 456-472).  \<^verbatim>\<open>len(..) is not 0\<close> compares with the
  shared small integer 0, so it is \<open>\<noteq> 0\<close>.  Python's \<^verbatim>\<open>sorted\<close> is stable, as
  \<^const>\<open>sort_key\<close> is.  The divisor is the smaller of two lengths that are both non-zero
  in this branch, so the division never raises.
\<close>

definition matching_hit_critera :: "RegionInfo \<Rightarrow> RegionInfo \<Rightarrow> rat \<Rightarrow> bool" where
  "matching_hit_critera r1 r2 cutoff =
     (if length (hits r1) \<noteq> 0 \<and> length (hits r2) \<noteq> 0 then
        (let s = sort_key (\<lambda>r. length (hits r)) [r1, r2] in
           if of_nat (number_of_matching_hits r1 r2) / of_nat (length (hits (s ! 0))) \<ge> cutoff
           then True else False)
      else False)"

text \<open>\<^verbatim>\<open>region_proximity\<close> (lines 475-484).\<close>

definition region_proximity :: "RegionInfo \<Rightarrow> RegionInfo \<Rightarrow> int" where
  "region_proximity r1 r2 =
     (let sorted_by_start = sort_key (\<lambda>r. ival (start r)) [r1, r2]
      in ival (start (sorted_by_start ! 1)) - end' (sorted_by_start ! 0))"

text \<open>\<^verbatim>\<open>compare_regions\<close> (lines 487-496).\<close>

definition compare_regions :: "RegionInfo \<Rightarrow> RegionInfo \<Rightarrow> rat \<Rightarrow> bool" where
  "compare_regions r1 r2 cutoff =
     (if region_proximity r1 r2 < 1000 \<and> matching_hit_critera r1 r2 cutoff = True
         \<and> strand r1 = strand r2
      then True else False)"

section \<open>Joining two regions\<close>

text \<open>\<^verbatim>\<open>sort_hits_by_eval\<close> (lines 517-524).\<close>

definition sort_hits_by_eval :: "BlastHit list \<Rightarrow> BlastHit list" where
  "sort_hits_by_eval lobh = sort_key eval lobh"

text \<open>
  \<^verbatim>\<open>join_regions\<close> (lines 499-514).  \<^verbatim>\<open>list(set(xs))\<close> lists the distinct elements of
  \<open>xs\<close> in the iteration order of a hash set, which the program does not control: that
  order is the parameter \<open>set_iter\<close>.  \<^const>\<open>remdups\<close> is one such order.
\<close>

definition join_regions ::
  "(BlastHit list \<Rightarrow> BlastHit list) \<Rightarrow> RegionInfo \<Rightarrow> RegionInfo \<Rightarrow> RegionInfo" where
  "join_regions set_iter r1 r2 =
     (let merged_hits = sort_hits_by_eval (set_iter (hits r1 @ hits r2)) in
      \<lparr>contig = contig r1,
       query = ''locus_tag=pseudo_uniqueID'',
       start = start r1,
       end' = end' r2,
       strand = strand r1,
       hits = merged_hits,
       note' = ''Note=pseudogene candidate. Reason: Predicted fragmentation of a single gene.;colour=229 204 255''\<rparr>)"

section \<open>The adjacency merge engine\<close>

text \<open>
  The state of the loop of \<^verbatim>\<open>check_adjacent_regions\<close> (lines 668-781): the working list,
  the index \<^verbatim>\<open>i\<close>, the two output lists, and the number of increments made to
  \<^verbatim>\<open>StatisticsDict['FragmentedOrfs']\<close> during this call.
\<close>

record car_state =
  sorted_lori :: "RegionInfo list"
  idx :: nat
  MergedList :: "RegionInfo list"
  IndividualList :: "RegionInfo list"
  FragmentedOrfs :: nat

text \<open>\<^verbatim>\<open>del xs[k]\<close>; every use below has \<open>k < length xs\<close> by the guards around it.\<close>

definition del_at :: "nat \<Rightarrow> 'a list \<Rightarrow> 'a list" where
  "del_at k xs = take k xs @ drop (Suc k) xs"

text \<open>
  The statistics loop (lines 699-701 and 719-721): one increment for each of the given
  regions whose note does not contain the fragmentation text.
\<close>

definition count_new :: "RegionInfo list \<Rightarrow> nat" where
  "count_new rs =
     length (filter (\<lambda>region.
       \<not> sublist ''Predicted fragmentation of a single gene'' (note' region)) rs)"

text \<open>
  Lines 731-732 and 738-739, and lines 757-760: drop the entries whose start is the same
  object as the new entry's start, then append the new entry.
\<close>

definition replace_by_start :: "RegionInfo \<Rightarrow> RegionInfo list \<Rightarrow> RegionInfo list" where
  "replace_by_start pseudo xs =
     filter (\<lambda>item. \<not> py_is (start item) (start pseudo)) xs @ [pseudo]"

text \<open>
  The block under \<^verbatim>\<open>if NewPseudoMade is True\<close> (lines 746-770), after the joined regions
  were deleted from the working list (\<open>rest\<close>) and counted (\<open>n\<close>).
\<close>

definition new_pseudo_made :: "car_state \<Rightarrow> RegionInfo \<Rightarrow> nat \<Rightarrow> RegionInfo list \<Rightarrow> car_state" where
  "new_pseudo_made s pseudo n rest =
     \<lparr>sorted_lori = sort_key (\<lambda>r. ival (start r)) (rest @ [pseudo]),
      idx = (if idx s > 0 then idx s - 1 else idx s),
      MergedList = replace_by_start pseudo (MergedList s),
      IndividualList = IndividualList s,
      FragmentedOrfs = FragmentedOrfs s + n\<rparr>"

text \<open>
  The two identical \<^verbatim>\<open>elif\<close> branches that record a standalone candidate (lines 729-732
  and 736-739), with the step of the index that follows when no region was made (line 774).
\<close>

definition record_individual :: "car_state \<Rightarrow> car_state" where
  "record_individual s =
     (if sublist ''Note=pseudogene candidate. Reason: ORF'' (note' (sorted_lori s ! idx s))
      then s\<lparr>IndividualList := replace_by_start (sorted_lori s ! idx s) (IndividualList s),
              idx := idx s + 1\<rparr>
      else s\<lparr>idx := idx s + 1\<rparr>)"

text \<open>
  One pass through the body of the \<^verbatim>\<open>while\<close> loop (lines 686-774), entered with
  \<open>idx s < length (sorted_lori s) - 1\<close>, so that the positions \<open>i\<close> and \<open>i + 1\<close> exist;
  position \<open>i + 2\<close> is read only under the test of line 708.
\<close>

definition adjacent_step ::
  "(BlastHit list \<Rightarrow> BlastHit list) \<Rightarrow> rat \<Rightarrow> car_state \<Rightarrow> car_state" where
  "adjacent_step set_iter cutoff s =
     (let l = sorted_lori s; i = idx s in
      if compare_regions (l ! i) (l ! (i + 1)) cutoff = True then
        new_pseudo_made s (join_regions set_iter (l ! i) (l ! (i + 1)))
          (count_new [l ! i, l ! (i + 1)])
          (del_at i (del_at (i + 1) l))
      else if int i < int (length l) - 2 then
        (if compare_regions (l ! i) (l ! (i + 2)) cutoff = True then
           new_pseudo_made s (join_regions set_iter (l ! i) (l ! (i + 2)))
             (count_new [l ! i, l ! (i + 1), l ! (i + 2)])
             (del_at i (del_at (i + 1) (del_at (i + 2) l)))
         else record_individual s)
      else record_individual s)"

text \<open>The test of the \<^verbatim>\<open>while\<close> loop (line 684).\<close>

definition loop_guard :: "car_state \<Rightarrow> bool" where
  "loop_guard s = (int (idx s) < int (length (sorted_lori s)) - 1)"

text \<open>
  The value of \<^verbatim>\<open>NewPseudoMade\<close> at the end of a pass entered in state \<open>s\<close>: one of the
  two comparisons succeeded.
\<close>

definition NewPseudoMade :: "rat \<Rightarrow> car_state \<Rightarrow> bool" where
  "NewPseudoMade cutoff s =
     (let l = sorted_lori s; i = idx s in
      compare_regions (l ! i) (l ! (i + 1)) cutoff
      \<or> (int i < int (length l) - 2 \<and> compare_regions (l ! i) (l ! (i + 2)) cutoff))"

text \<open>The \<^verbatim>\<open>while\<close> loop.  Its measure: twice the length of the working list, less the index.\<close>

function adjacent_loop ::
  "(BlastHit list \<Rightarrow> BlastHit list) \<Rightarrow> rat \<Rightarrow> car_state \<Rightarrow> car_state" where
  "adjacent_loop set_iter cutoff s =
     (if loop_guard s then adjacent_loop set_iter cutoff (adjacent_step set_iter cutoff s)
      else s)"
  by pat_completeness auto
termination
proof (relation "measure (\<lambda>(set_iter, cutoff, s). 2 * length (sorted_lori s) - idx s)")
  show "wf (measure (\<lambda>(set_iter, cutoff, s). 2 * length (sorted_lori s) - idx s))"
    by simp
next
  fix set_iter :: "BlastHit list \<Rightarrow> BlastHit list" and cutoff :: rat and s :: car_state
  assume g: "loop_guard s"
  then have lt: "idx s + 1 < length (sorted_lori s)"
    by (simp add: loop_guard_def)
  have "2 * length (sorted_lori (adjacent_step set_iter cutoff s))
          - idx (adjacent_step set_iter cutoff s)
        < 2 * length (sorted_lori s) - idx s"
    using lt
    by (auto simp: adjacent_step_def new_pseudo_made_def record_individual_def del_at_def
          Let_def)
  then show "((set_iter, cutoff, adjacent_step set_iter cutoff s), (set_iter, cutoff, s))
      \<in> measure (\<lambda>(set_iter, cutoff, s). 2 * length (sorted_lori s) - idx s)"
    by simp
qed

text \<open>
  The equation of the loop is an unconditional equation of \<open>adjacent_loop\<close> in terms of
  itself: it is unfolded on purpose only.
\<close>

declare adjacent_loop.simps [simp del]

text \<open>
  \<^verbatim>\<open>check_adjacent_regions\<close>: the pair of output lists it returns, and the number of
  increments it makes to the fragmented-ORF counter.
\<close>

definition initial_state :: "RegionInfo list \<Rightarrow> car_state" where
  "initial_state lori =
     \<lparr>sorted_lori = sort_key (\<lambda>r. ival (start r)) lori, idx = 0,
      MergedList = [], IndividualList = [], FragmentedOrfs = 0\<rparr>"

definition check_adjacent_regions ::
  "(BlastHit list \<Rightarrow> BlastHit list) \<Rightarrow> RegionInfo list \<Rightarrow> rat
     \<Rightarrow> RegionInfo list \<times> RegionInfo list" where
  "check_adjacent_regions set_iter lori cutoff =
     (let s = adjacent_loop set_iter cutoff (initial_state lori)
      in (IndividualList s, MergedList s))"

definition fragmented_orfs_added ::
  "(BlastHit list \<Rightarrow> BlastHit list) \<Rightarrow> RegionInfo list \<Rightarrow> rat \<Rightarrow> nat" where
  "fragmented_orfs_added set_iter lori cutoff =
     FragmentedOrfs (adjacent_loop set_iter cutoff (initial_state lori))"

section \<open>The individual-region classifier\<close>

text \<open>
  Doubles.  A finite double is modelled by the rational it denotes.  For \<open>x \<noteq> 0\<close>,
  \<open>binary_exponent x\<close> is the \<open>e\<close> with \<open>2 ^ e \<le> \<bar>x\<bar> < 2 ^ (e + 1)\<close>, and \<open>fl x\<close> is
  the double nearest to \<open>x\<close>, a multiple of \<open>2 ^ (e - 52)\<close>, ties going to the even
  multiple: the result of a correctly rounded operation whose exact result is \<open>x\<close>.
  The exponent of a double is bounded and zero has a sign; neither is modelled (no
  infinity and no \<^verbatim>\<open>OverflowError\<close>, no subnormal number, no \<^verbatim>\<open>-0.0\<close>).  The model is
  exact where no operation leaves the range of the normal doubles and no negative number
  is rounded to zero; the properties of the classifier are stated for such inputs:
  non-negative region lengths, positive sums of hit lengths, all numbers below \<open>2 ^ 63\<close>.
\<close>

definition round_half_even :: "rat \<Rightarrow> int" where
  "round_half_even x =
     (let f = \<lfloor>x\<rfloor>; d = x - of_int f in
      if d < 1 / 2 then f else if 1 / 2 < d then f + 1 else if even f then f else f + 1)"

definition binary_exponent :: "rat \<Rightarrow> int" where
  "binary_exponent x =
     (let (p, q) = quotient_of \<bar>x\<bar>; e = bitlen p - bitlen q
      in if 2 powi e \<le> \<bar>x\<bar> then e else e - 1)"

definition fl :: "rat \<Rightarrow> rat" where
  "fl x =
     (if x = 0 then 0
      else (let ulp = 2 powi (binary_exponent x - 52)
            in of_int (round_half_even (x / ulp)) * ulp))"

text \<open>
  \<^verbatim>\<open>round(x, 1)\<close> of a double \<open>x\<close>: the number with one decimal nearest to the value of
  \<open>x\<close>, ties to the even neighbour, converted back to a double.
\<close>

definition py_round1 :: "rat \<Rightarrow> rat" where
  "py_round1 x = fl (of_int (round_half_even (x * 10)) / 10)"

text \<open>
  \<^verbatim>\<open>convert_region_to_pseudo\<close> (lines 652-665).  The \<^verbatim>\<open>%s\<close> conversion of a float to
  text is the interpreter's: the parameter \<open>str_float\<close>.
\<close>

definition convert_region_to_pseudo :: "(rat \<Rightarrow> string) \<Rightarrow> RegionInfo \<Rightarrow> rat \<Rightarrow> RegionInfo" where
  "convert_region_to_pseudo str_float region ratio =
     \<lparr>contig = contig region,
      query = ''locus_tag=pseudo_uniqueID'',
      start = start region,
      end' = end' region,
      strand = strand region,
      hits = hits region,
      note' = ''Note=pseudogene candidate. Reason: ORF is '' @ str_float (py_round1 ratio)
              @ ''% of the average length of hits to this gene.;colour=229 204 255''\<rparr>"

text \<open>
  The body of the second loop of \<^verbatim>\<open>check_individual_ORFs\<close> (lines 626-636).  The average
  is the true division of two integers, rounded once.  The ratio divides the region length,
  converted to a double, by the average, and raises \<^verbatim>\<open>ZeroDivisionError\<close> when the
  average is zero.  The list of lengths has more than two elements there, so the average
  itself never raises.
\<close>

definition length_ratio :: "RegionInfo \<Rightarrow> error + rat" where
  "length_ratio region =
     (let ListOfDatabaseLengths = map slen (hits region);
          AverageDatabaseLength =
            fl (of_int (sum_list ListOfDatabaseLengths) / of_nat (length ListOfDatabaseLengths));
          RegionLength = end' region - ival (start region)
      in if AverageDatabaseLength = 0 then Inl ZeroDivisionError
         else Inr (fl (fl (of_int RegionLength) / AverageDatabaseLength)))"

text \<open>
  The second loop (lines 624-647), appending to \<^verbatim>\<open>lopg\<close>; \<^verbatim>\<open>Ratio*100\<close> is a float
  product.
\<close>

fun flag_regions ::
  "(rat \<Rightarrow> string) \<Rightarrow> rat \<Rightarrow> RegionInfo list \<Rightarrow> RegionInfo list \<Rightarrow> error + RegionInfo list" where
  "flag_regions str_float length_cutoff [] lopg = Inr lopg"
| "flag_regions str_float length_cutoff (region # rest) lopg =
     (case length_ratio region of
        Inl e \<Rightarrow> Inl e
      | Inr Ratio \<Rightarrow>
          if Ratio < length_cutoff
          then flag_regions str_float length_cutoff rest
                 (lopg @ [convert_region_to_pseudo str_float region (fl (Ratio * 100))])
          else flag_regions str_float length_cutoff rest lopg)"

text \<open>\<^verbatim>\<open>check_individual_ORFs\<close> (lines 609-649).\<close>

definition check_individual_ORFs ::
  "(rat \<Rightarrow> string) \<Rightarrow> RegionInfo list \<Rightarrow> rat \<Rightarrow> error + RegionInfo list" where
  "check_individual_ORFs str_float lori length_cutoff =
     (let InitialList = filter (\<lambda>region. length (hits region) > 2) lori
      in flag_regions str_float length_cutoff InitialList [])"

section \<open>The hit report parser\<close>

text \<open>
  Exceptions propagate through \<^verbatim>\<open>raise_bind\<close>: the first error ends the computation.
\<close>

definition raise_bind :: "error + 'a \<Rightarrow> ('a \<Rightarrow> error + 'b) \<Rightarrow> error + 'b" where
  "raise_bind m f = (case m of Inl e \<Rightarrow> Inl e | Inr x \<Rightarrow> f x)"

text \<open>
  The report is a list of lines of ASCII text, as \<^verbatim>\<open>readlines\<close> returns them.
  \<^verbatim>\<open>\s\<close> matches the ASCII white space below.
\<close>

definition is_space :: "char \<Rightarrow> bool" where
  "is_space c = (c \<in> set [CHR 0x09, CHR 0x0A, CHR 0x0B, CHR 0x0C, CHR 0x0D,
                         CHR 0x1C, CHR 0x1D, CHR 0x1E, CHR 0x1F, CHR 0x20])"

definition is_digit :: "char \<Rightarrow> bool" where
  "is_digit c = (c \<in> set ''0123456789'')"

text \<open>
  \<^verbatim>\<open>re.split\<close> on the separators white space, brackets, colon and parentheses; with
  \<open>dash\<close> also on a minus sign that follows a digit (the pattern of line 326).  Then
  \<^verbatim>\<open>filter(None, ..)\<close> drops the empty pieces.
\<close>

fun re_split :: "bool \<Rightarrow> bool \<Rightarrow> string \<Rightarrow> string \<Rightarrow> string list" where
  "re_split dash prev_digit cur [] = [cur]"
| "re_split dash prev_digit cur (c # cs) =
     (if is_space c \<or> c \<in> set ''[]:()'' \<or> (dash \<and> prev_digit \<and> c = CHR ''-'')
      then cur # re_split dash (is_digit c) [] cs
      else re_split dash (is_digit c) (cur @ [c]) cs)"

definition fields_in_line :: "bool \<Rightarrow> string \<Rightarrow> string list" where
  "fields_in_line dash line = filter (\<lambda>f. f \<noteq> []) (re_split dash False [] line)"

text \<open>
  The columns of a row as BLAST writes them in its tabular format: the thirteen values
  \<^verbatim>\<open>qseqid sseqid pident length mismatch gapopen qstart qend sstart send slen evalue bitscore\<close>
  of lines 229 and 247, separated by white space.  Column 10 is \<^verbatim>\<open>slen\<close>.
\<close>

fun cut_at_space :: "string \<Rightarrow> string \<Rightarrow> string list" where
  "cut_at_space cur [] = [cur]"
| "cut_at_space cur (c # cs) =
     (if is_space c then cur # cut_at_space [] cs else cut_at_space (cur @ [c]) cs)"

definition columns :: "string \<Rightarrow> string list" where
  "columns line = filter (\<lambda>f. f \<noteq> []) (cut_at_space [] line)"

text \<open>\<^verbatim>\<open>FieldsInLine[k]\<close>.\<close>

definition field :: "string list \<Rightarrow> nat \<Rightarrow> error + string" where
  "field FieldsInLine k = (if k < length FieldsInLine then Inr (FieldsInLine ! k) else Inl IndexError)"

text \<open>
  \<^verbatim>\<open>int(s)\<close> on a piece without white space: an optional sign, then decimal digits, single
  underscores allowed between digits.
\<close>

fun int_digits :: "nat \<Rightarrow> bool \<Rightarrow> string \<Rightarrow> nat option" where
  "int_digits acc prev_digit [] = (if prev_digit then Some acc else None)"
| "int_digits acc prev_digit (c # cs) =
     (if is_digit c then int_digits (10 * acc + (of_char c - 48)) True cs
      else if c = CHR ''_'' \<and> prev_digit then
        (case cs of [] \<Rightarrow> None
         | d # ds \<Rightarrow> if is_digit d then int_digits acc False cs else None)
      else None)"

definition py_int :: "string \<Rightarrow> error + int" where
  "py_int s =
     (case s of
        [] \<Rightarrow> Inl ValueError
      | c # cs \<Rightarrow>
          if c = CHR ''-'' then
            (case int_digits 0 False cs of None \<Rightarrow> Inl ValueError | Some n \<Rightarrow> Inr (- int n))
          else if c = CHR ''+'' then
            (case int_digits 0 False cs of None \<Rightarrow> Inl ValueError | Some n \<Rightarrow> Inr (int n))
          else
            (case int_digits 0 False s of None \<Rightarrow> Inl ValueError | Some n \<Rightarrow> Inr (int n)))"

text \<open>\<^verbatim>\<open>xs[k]\<close> for a possibly negative \<open>k\<close>: negative indices count from the end.\<close>

definition py_index :: "'a list \<Rightarrow> int \<Rightarrow> error + 'a" where
  "py_index xs k =
     (if 0 \<le> k \<and> k < int (length xs) then Inr (xs ! nat k)
      else if k < 0 \<and> - int (length xs) \<le> k then Inr (xs ! nat (int (length xs) + k))
      else Inl IndexError)"

text \<open>
  An entry of \<^verbatim>\<open>QueryDict\<close>: the inner dictionary, whose key \<^verbatim>\<open>'hits'\<close> may be absent.
  \<^verbatim>\<open>QueryDict\<close> itself is an association list in insertion order, which is the order
  in which a Python dictionary is iterated.
\<close>

record query_info =
  d_contig :: string
  d_query :: string
  d_start :: pyint
  d_end :: int
  d_strand :: string
  d_hits :: "BlastHit list option"

record parse_state =
  queryIndex :: nat
  QueryDict :: "(string \<times> query_info) list"

text \<open>\<^verbatim>\<open>collect_query_ids\<close> (lines 278-293).\<close>

fun collect_query_ids :: "string list \<Rightarrow> error + string list" where
  "collect_query_ids [] = Inr []"
| "collect_query_ids (line # rest) =
     (if prefix ''# Query:'' line then
        raise_bind (field (fields_in_line False line) 2) (\<lambda>query.
        raise_bind (collect_query_ids rest) (\<lambda>loq. Inr (query # loq)))
      else collect_query_ids rest)"

text \<open>
  The dictionary built at lines 326-332.  Every call of \<^verbatim>\<open>int\<close> makes a new integer
  object; its identity is the number of the line it was read from.
\<close>

definition query_header :: "string \<Rightarrow> nat \<Rightarrow> string \<Rightarrow> error + query_info" where
  "query_header q line_number line =
     (let FieldsInLine = fields_in_line True line in
      raise_bind (field FieldsInLine 3) (\<lambda>c.
      raise_bind (raise_bind (field FieldsInLine 4) py_int) (\<lambda>s.
      raise_bind (raise_bind (field FieldsInLine 5) py_int) (\<lambda>e.
      raise_bind (field FieldsInLine 6) (\<lambda>sd.
      Inr \<lparr>d_contig = c, d_query = q, d_start = PyInt s line_number, d_end = e,
           d_strand = sd, d_hits = None\<rparr>)))))"

text \<open>
  The \<^verbatim>\<open>BlastHit\<close> built at lines 344-359.  \<^verbatim>\<open>float\<close> is the interpreter's: the
  parameter \<open>to_float\<close>.
\<close>

definition blast_hit_of_row :: "(string \<Rightarrow> error + rat) \<Rightarrow> string \<Rightarrow> error + BlastHit" where
  "blast_hit_of_row to_float line =
     (let FieldsInLine = fields_in_line False line in
      raise_bind (field FieldsInLine 1) (\<lambda>a.
      raise_bind (raise_bind (field FieldsInLine 10) py_int) (\<lambda>l.
      raise_bind (raise_bind (field FieldsInLine 8) py_int) (\<lambda>s.
      raise_bind (raise_bind (field FieldsInLine 9) py_int) (\<lambda>e.
      raise_bind (raise_bind (field FieldsInLine 11) to_float) (\<lambda>v.
      Inr \<lparr>accession = a, slen = l * 3, s_start = s, s_end = e, eval = v\<rparr>))))))"

text \<open>
  Regular expressions.  A pattern that is a fixed text after \<^verbatim>\<open>^\<close> (lines 288, 335 and
  the first test of line 366) matches the lines that begin with that text.  The patterns
  of lines 322, 340 and 366 have a query identifier interpolated, and what they match
  depends on the characters of the identifier: there \<^verbatim>\<open>re.match(pattern, line)\<close> is the
  parameter \<open>re_match\<close>, applied to the pattern as the code builds it.  Its value is
  whether there is a match, or the exception raised for the pattern.
\<close>

text \<open>
  Lines 365-371.  Both index errors the \<^verbatim>\<open>try\<close> could see are caught and ignored; the
  look-up \<^verbatim>\<open>lines[line_number-1]\<close> is Python's, so at line 0 it reads index -1.  An
  exception of \<^verbatim>\<open>re.match\<close> is not an \<^verbatim>\<open>IndexError\<close> and is not caught.
\<close>

definition end_of_hits ::
  "(string \<Rightarrow> string \<Rightarrow> error + bool) \<Rightarrow> string list \<Rightarrow> string list \<Rightarrow> nat
     \<Rightarrow> parse_state \<Rightarrow> error + parse_state" where
  "end_of_hits re_match queries lines line_number st =
     (if prefix ''#'' (lines ! line_number) then
        (if queryIndex st < length queries then
           (case py_index lines (int line_number - 1) of
              Inl e \<Rightarrow> Inr st
            | Inr previous \<Rightarrow>
                raise_bind (re_match (queries ! queryIndex st) previous) (\<lambda>found.
                Inr (if found then st\<lparr>queryIndex := queryIndex st + 1\<rparr> else st)))
         else Inr st)
      else Inr st)"

text \<open>One pass through the body of the loop over the lines (lines 319-371).\<close>

definition parse_line ::
  "(string \<Rightarrow> string \<Rightarrow> error + bool) \<Rightarrow> (string \<Rightarrow> error + rat) \<Rightarrow> string list
     \<Rightarrow> string list \<Rightarrow> nat \<Rightarrow> parse_state \<Rightarrow> error + parse_state" where
  "parse_line re_match to_float queries lines line_number st =
     (let line = lines ! line_number in
      if \<not> queryIndex st < length queries then Inl IndexError
      else
        (let q = queries ! queryIndex st in
         raise_bind
           (raise_bind (re_match (''^# Query: '' @ q) line) (\<lambda>is_header.
            if is_header then
              raise_bind (query_header q line_number line) (\<lambda>info.
              Inr (st\<lparr>QueryDict := AList.update q info (QueryDict st)\<rparr>))
            else if prefix ''# 0 hits found'' line then
              (case map_of (QueryDict st) q of
                 None \<Rightarrow> Inl KeyError
               | Some info \<Rightarrow>
                   Inr (st\<lparr>QueryDict := AList.delete q (QueryDict st),
                           queryIndex := queryIndex st + 1\<rparr>))
            else
              raise_bind (re_match (''^'' @ q) line) (\<lambda>is_row.
              if is_row then
                (case map_of (QueryDict st) q of
                   None \<Rightarrow> Inl KeyError
                 | Some info \<Rightarrow>
                     (let found = (case d_hits info of None \<Rightarrow> [] | Some hs \<Rightarrow> hs) in
                      raise_bind (blast_hit_of_row to_float line) (\<lambda>h.
                      Inr (st\<lparr>QueryDict :=
                        AList.update q (info\<lparr>d_hits := Some (found @ [h])\<rparr>) (QueryDict st)\<rparr>))))
              else Inr st)))
           (end_of_hits re_match queries lines line_number)))"

fun parse_loop ::
  "(string \<Rightarrow> string \<Rightarrow> error + bool) \<Rightarrow> (string \<Rightarrow> error + rat) \<Rightarrow> string list
     \<Rightarrow> string list \<Rightarrow> nat list \<Rightarrow> parse_state \<Rightarrow> error + parse_state" where
  "parse_loop re_match to_float queries lines [] st = Inr st"
| "parse_loop re_match to_float queries lines (line_number # later) st =
     raise_bind (parse_line re_match to_float queries lines line_number st)
       (parse_loop re_match to_float queries lines later)"

text \<open>\<^verbatim>\<open>get_intergenic_query_range\<close> (lines 401-416).\<close>

definition get_intergenic_query_range :: "BlastHit list \<Rightarrow> int \<Rightarrow> error + int \<times> int" where
  "get_intergenic_query_range lobh start_position =
     (let startList = map s_start lobh; endList = map s_end lobh in
      if lobh = [] then Inl ValueError
      else Inr (start_position + Min (set startList) + 1, start_position + Max (set endList) + 1))"

text \<open>
  The final loop over \<^verbatim>\<open>QueryDict\<close> (lines 374-395).  The two call sites pass the
  literals \<^verbatim>\<open>'BlastP'\<close> and \<^verbatim>\<open>'BlastX'\<close>, which are the very objects the tests
  \<^verbatim>\<open>blast_format is "BlastP"\<close> compare with.  A start computed for a BlastX region is a
  new integer object (\<open>fresh\<close>).
\<close>

fun region_list :: "string \<Rightarrow> nat \<Rightarrow> (string \<times> query_info) list \<Rightarrow> error + RegionInfo list" where
  "region_list blast_format fresh [] = Inr []"
| "region_list blast_format fresh ((key, info) # later) =
     raise_bind
       (if blast_format = ''BlastP'' then
          (case d_hits info of
             None \<Rightarrow> Inl KeyError
           | Some hs \<Rightarrow>
               Inr [\<lparr>contig = d_contig info, query = d_query info, start = d_start info,
                     end' = d_end info, strand = d_strand info, hits = hs, note' = ''''\<rparr>])
        else if blast_format = ''BlastX'' then
          (case d_hits info of
             None \<Rightarrow> Inl KeyError
           | Some hs \<Rightarrow>
               raise_bind (get_intergenic_query_range hs (ival (d_start info)))
                 (\<lambda>(regionStart, regionEnd).
               Inr [\<lparr>contig = d_contig info, query = d_query info,
                     start = PyInt regionStart fresh,
                     end' = regionEnd, strand = d_strand info, hits = hs, note' = ''''\<rparr>]))
        else Inr [])
       (\<lambda>new. raise_bind (region_list blast_format (fresh + 1) later)
          (\<lambda>regionList. Inr (new @ regionList)))"

text \<open>\<^verbatim>\<open>parse_blast\<close> (lines 297-398), on the lines of the file.\<close>

definition parse_blast ::
  "(string \<Rightarrow> string \<Rightarrow> error + bool) \<Rightarrow> (string \<Rightarrow> error + rat) \<Rightarrow> string list
     \<Rightarrow> string \<Rightarrow> error + RegionInfo list" where
  "parse_blast re_match to_float lines blast_format =
     raise_bind (collect_query_ids lines) (\<lambda>queries.
     raise_bind (parse_loop re_match to_float queries lines [0..<length lines]
                   \<lparr>queryIndex = 0, QueryDict = []\<rparr>) (\<lambda>st.
     region_list blast_format (length lines) (QueryDict st)))"

section \<open>Invariants used in the proofs\<close>

text \<open>
  Every entry of \<^verbatim>\<open>QueryDict\<close> names its own key as its query, and every hit stored in
  it was built by \<^const>\<open>blast_hit_of_row\<close> from a line of the report that the row pattern
  of this query matches.
\<close>

definition hits_from_rows ::
  "(string \<Rightarrow> string \<Rightarrow> error + bool) \<Rightarrow> (string \<Rightarrow> error + rat) \<Rightarrow> string list
     \<Rightarrow> (string \<times> query_info) list \<Rightarrow> bool" where
  "hits_from_rows re_match to_float lines d =
     (\<forall>(k, info)\<in>set d. d_query info = k \<and> (\<forall>hs. d_hits info = Some hs \<longrightarrow>
        (\<forall>h\<in>set hs. \<exists>line\<in>set lines.
           re_match (''^'' @ k) line = Inr True \<and> blast_hit_of_row to_float line = Inr h)))"

text \<open>
  The working list is sorted by start, at most one of its regions starts at \<open>S\<close> or
  later, and every recorded standalone candidate starts before \<open>S\<close>.
\<close>

definition standalone_inv :: "int \<Rightarrow> car_state \<Rightarrow> bool" where
  "standalone_inv S s =
     (sorted (map (\<lambda>r. ival (start r)) (sorted_lori s))
      \<and> length (filter (\<lambda>x. S \<le> ival (start x)) (sorted_lori s)) \<le> 1
      \<and> (\<forall>x\<in>set (IndividualList s). ival (start x) < S))"

section \<open>Concrete inputs\<close>

text \<open>
  A reading of plain decimal literals such as \<^verbatim>\<open>1.33e-40\<close>, standing for \<^verbatim>\<open>float\<close> where
  a report is parsed below, and the text with one decimal of the double nearest to a number
  with one decimal, standing for the \<^verbatim>\<open>%s\<close> conversion where a note is built below.  \<open>literal_match\<close> is \<^verbatim>\<open>re.match\<close> for a
  pattern of ordinary characters after an optional \<^verbatim>\<open>^\<close>: the line begins with these
  characters.  The identifiers of the reports below (\<open>Q1\<close>, \<open>Q2\<close>, \<open>Q10\<close>) are made of
  ordinary characters.
\<close>

definition literal_match :: "string \<Rightarrow> string \<Rightarrow> error + bool" where
  "literal_match pattern line =
     (case pattern of
        [] \<Rightarrow> Inr True
      | c # cs \<Rightarrow> Inr (if c = CHR ''^'' then prefix cs line else prefix pattern line))"

definition decimal_float :: "string \<Rightarrow> error + rat" where
  "decimal_float s =
     (let mantissa = takeWhile (\<lambda>c. c \<notin> set ''eE'') s;
          exponent = drop (Suc (length mantissa)) s;
          whole = takeWhile (\<lambda>c. c \<noteq> CHR ''.'') mantissa;
          part = drop (Suc (length whole)) mantissa
      in case (py_int (whole @ part), if exponent = [] then Inr 0 else py_int exponent) of
           (Inr m, Inr e) \<Rightarrow> Inr (of_int m * 10 powi (e - int (length part)))
         | _ \<Rightarrow> Inl ValueError)"

fun digits_of :: "nat \<Rightarrow> string" where
  "digits_of n =
     (if n < 10 then [char_of (48 + n)] else digits_of (n div 10) @ [char_of (48 + n mod 10)])"

definition str_tenths :: "rat \<Rightarrow> string" where
  "str_tenths x =
     (let k = round_half_even (x * 10); a = nat \<bar>k\<bar> in
      (if k < 0 then ''-'' else []) @ digits_of (a div 10) @ ''.'' @ digits_of (a mod 10))"

text \<open>
  Three regions of one contig, all on the forward strand.  \<open>region_B\<close> and \<open>region_A\<close>
  start at the same coordinate 1000, read from two different lines of a report, so their
  starts are two integer objects.
\<close>

definition hit_at :: "string \<Rightarrow> int \<Rightarrow> BlastHit" where
  "hit_at a k = \<lparr>accession = a, slen = 300, s_start = k, s_end = k + 50, eval = 0\<rparr>"

definition region_B :: RegionInfo where
  "region_B = \<lparr>contig = ''c1'', query = ''B'', start = PyInt 1000 1, end' = 1100,
     strand = ''+'', hits = [hit_at ''x'' 1, hit_at ''y'' 1], note' = []\<rparr>"

definition region_A :: RegionInfo where
  "region_A = \<lparr>contig = ''c1'', query = ''A'', start = PyInt 1000 2, end' = 1200,
     strand = ''+'', hits = [hit_at ''x'' 2, hit_at ''a'' 2, hit_at ''b'' 2], note' = []\<rparr>"

definition region_C :: RegionInfo where
  "region_C = \<lparr>contig = ''c1'', query = ''C'', start = PyInt 1300 3, end' = 1500,
     strand = ''+'', hits = [hit_at ''y'' 3, hit_at ''a'' 3, hit_at ''b'' 3], note' = []\<rparr>"

text \<open>A region without hits.\<close>

definition region_E :: RegionInfo where
  "region_E = \<lparr>contig = ''c1'', query = ''E'', start = PyInt 1250 4, end' = 1290,
     strand = ''+'', hits = [], note' = []\<rparr>"

text \<open>
  The scenario of the specification: five hits of target length 300, a region of length
  150.
\<close>

definition short_orf :: RegionInfo where
  "short_orf = \<lparr>contig = ''c1'', query = ''Q1'', start = PyInt 1000 0, end' = 1150,
     strand = ''+'', hits = map (\<lambda>a. hit_at a 1) [''a'', ''b'', ''c'', ''d'', ''e''],
     note' = []\<rparr>"

text \<open>
  \<open>zero_orf\<close> is \<open>short_orf\<close> with hits of target length 0.  \<open>orf_69\<close> has length 69 and
  three hits of target length 240.
\<close>

definition zero_orf :: RegionInfo where
  "zero_orf = short_orf\<lparr>hits := map (\<lambda>h. h\<lparr>slen := 0\<rparr>) (hits short_orf)\<rparr>"

definition orf_69 :: RegionInfo where
  "orf_69 = \<lparr>contig = ''c1'', query = ''Q2'', start = PyInt 2000 5, end' = 2069,
     strand = ''+'', hits = map (\<lambda>a. (hit_at a 1)\<lparr>slen := 240\<rparr>) [''a'', ''b'', ''c''],
     note' = []\<rparr>"

text \<open>
  Regions that carry the annotation of an individual pseudogene: \<open>flagged_orf\<close>,
  \<open>twin_orf\<close> with the same start coordinate read from another line and no hit in common
  with it, and \<open>far_orf\<close> far downstream.
\<close>

definition flagged_orf :: RegionInfo where
  "flagged_orf = convert_region_to_pseudo str_tenths short_orf 50"

definition far_orf :: RegionInfo where
  "far_orf = flagged_orf\<lparr>start := PyInt 9000 9, end' := 9150\<rparr>"

definition twin_orf :: RegionInfo where
  "twin_orf = flagged_orf\<lparr>start := PyInt 1000 7, hits := [hit_at ''z'' 1]\<rparr>"

text \<open>
  Reports.  \<open>report_one_query\<close> is what BLAST writes for one query with one hit (columns
  separated by blanks here); \<open>report_no_trailer\<close> is the same report without its last
  line; in \<open>report_two_headers\<close> the header of a second query follows the hit row of the
  first directly; \<open>report_no_query\<close> is the report of a search without queries; in
  \<open>report_prefix_ids\<close> that second query is \<open>Q10\<close>, whose identifier begins with the
  identifier of the first.  \<open>row_with_colon\<close> is a row whose accession contains a colon.
\<close>

definition report_one_query :: "string list" where
  "report_one_query =
     [''# BLASTP 2.6.0+\<newline>'',
      ''# Query: Q1 c1 [115:223](+)\<newline>'',
      ''# Database: db\<newline>'',
      ''# 1 hits found\<newline>'',
      ''Q1 sp|P86052|CYC4 47.9 169 81 5 61 225 25 190 192 1.33e-40 140\<newline>'',
      ''# BLAST processed 1 queries\<newline>'']"

definition report_no_trailer :: "string list" where
  "report_no_trailer = butlast report_one_query"

definition report_no_query :: "string list" where
  "report_no_query = [''# BLAST processed 0 queries\<newline>'']"

definition report_two_headers :: "string list" where
  "report_two_headers =
     [''# Query: Q1 c1 [115:223](+)\<newline>'',
      ''Q1 sp|P86052|CYC4 47.9 169 81 5 61 225 25 190 192 1.33e-40 140\<newline>'',
      ''# Query: Q2 c1 [300:400](+)\<newline>'']"

definition report_prefix_ids :: "string list" where
  "report_prefix_ids =
     [''# Query: Q1 c1 [115:223](+)\<newline>'',
      ''Q1 sp|P86052|CYC4 47.9 169 81 5 61 225 25 190 192 1.33e-40 140\<newline>'',
      ''# Query: Q10 c1 [300:400](+)\<newline>'']"

definition row_with_colon :: string where
  "row_with_colon = ''Q1 eco:b0002 47.9 169 81 5 61 225 25 190 192 1.33e-40 140\<newline>''"

section \<open>The merge criteria and the fused region\<close>

lemma shortest_hits:
  "length (hits (sort_key (\<lambda>r. length (hits r)) [r1, r2] ! 0)) = min (length (hits r1)) (length (hits r2))"
  by (simp add: min_def)

lemma region_proximity_eq:
  "region_proximity r1 r2 =
     (if ival (start r1) \<le> ival (start r2) then ival (start r2) - end' r1
      else ival (start r1) - end' r2)"
  by (simp add: region_proximity_def)

lemma matching_hit_critera_eq:
  "matching_hit_critera r1 r2 h =
     (hits r1 \<noteq> [] \<and> hits r2 \<noteq> [] \<and>
      h \<le> of_nat (card (set (map accession (hits r1)) \<inter> set (map accession (hits r2))))
            / of_nat (min (length (hits r1)) (length (hits r2))))"
  unfolding matching_hit_critera_def number_of_matching_hits_def Let_def shortest_hits
  by simp

text \<open>
  C1.  \<^verbatim>\<open>compare_regions(r1, r2, h)\<close> is true exactly when the gap from the end of the region
  that starts first to the start of the other is below 1000 (a negative gap included), the
  strands are equal, both regions have at least one hit, and the number of shared accessions
  divided by the smaller number of hits is at least \<open>h\<close>.  In particular a region without
  hits is never mergeable.
\<close>

theorem compare_regions_iff:
  "compare_regions r1 r2 h =
     ((if ival (start r1) \<le> ival (start r2) then ival (start r2) - end' r1
       else ival (start r1) - end' r2) < 1000
      \<and> strand r1 = strand r2
      \<and> 1 \<le> length (hits r1) \<and> 1 \<le> length (hits r2)
      \<and> h \<le> of_nat (card (set (map accession (hits r1)) \<inter> set (map accession (hits r2))))
             / of_nat (min (length (hits r1)) (length (hits r2))))
   \<and> (hits r1 = [] \<or> hits r2 = [] \<longrightarrow> \<not> compare_regions r1 r2 h)"
proof -
  have len: "(1 \<le> length (hits r1)) = (hits r1 \<noteq> [])" "(1 \<le> length (hits r2)) = (hits r2 \<noteq> [])"
    by (cases "hits r1", simp_all) (cases "hits r2", simp_all)
  have eq: "compare_regions r1 r2 h =
     (region_proximity r1 r2 < 1000 \<and> matching_hit_critera r1 r2 h \<and> strand r1 = strand r2)"
    by (simp add: compare_regions_def)
  show ?thesis
    unfolding eq region_proximity_eq matching_hit_critera_eq len by auto
qed

theorem compare_regions_iff_witness:
  "(hits region_E = [] \<or> hits region_C = []) \<and> \<not> compare_regions region_E region_C (3 / 10)"
  using compare_regions_iff [of region_E region_C "3 / 10"]
  by (simp add: region_E_def)

text \<open>
  C9.  The shared-hit criterion is symmetric in its two regions.
\<close>

theorem matching_hit_critera_sym:
  "matching_hit_critera r1 r2 h = matching_hit_critera r2 r1 h"
  unfolding matching_hit_critera_eq by (auto simp: Int_commute min.commute)

lemma sublist_frag_note:
  "sublist ''Predicted fragmentation of a single gene''
     ''Note=pseudogene candidate. Reason: Predicted fragmentation of a single gene.;colour=229 204 255''"
  by code_simp

text \<open>
  C2.  The region made by \<^verbatim>\<open>join_regions(r1, r2)\<close> starts where \<open>r1\<close> starts, ends where
  \<open>r2\<close> ends, has the strand and the contig of \<open>r1\<close>; its hits are the hits of both
  regions without duplicates, in ascending order of e-value; its query is the placeholder
  and its note carries the fragmentation text.  The iteration order of the set of hits is
  any listing of its elements without repetition.
\<close>

theorem join_regions_spec:
  assumes "distinct (set_iter (hits r1 @ hits r2))"
    and "set (set_iter (hits r1 @ hits r2)) = set (hits r1 @ hits r2)"
  shows "start (join_regions set_iter r1 r2) = start r1
    \<and> end' (join_regions set_iter r1 r2) = end' r2
    \<and> strand (join_regions set_iter r1 r2) = strand r1
    \<and> contig (join_regions set_iter r1 r2) = contig r1
    \<and> distinct (hits (join_regions set_iter r1 r2))
    \<and> set (hits (join_regions set_iter r1 r2)) = set (hits r1) \<union> set (hits r2)
    \<and> sorted (map eval (hits (join_regions set_iter r1 r2)))
    \<and> query (join_regions set_iter r1 r2) = ''locus_tag=pseudo_uniqueID''
    \<and> sublist ''Predicted fragmentation of a single gene'' (note' (join_regions set_iter r1 r2))"
  using assms sublist_frag_note
  by (simp add: join_regions_def sort_hits_by_eval_def Let_def)

theorem join_regions_spec_witness:
  "distinct (remdups (hits region_A @ hits region_C))
   \<and> set (remdups (hits region_A @ hits region_C)) = set (hits region_A @ hits region_C)
   \<and> start (join_regions remdups region_A region_C) = PyInt 1000 2
   \<and> end' (join_regions remdups region_A region_C) = 1500
   \<and> query (join_regions remdups region_A region_C) = ''locus_tag=pseudo_uniqueID''
   \<and> sorted (map eval (hits (join_regions remdups region_A region_C)))"
proof -
  have d: "distinct (remdups (hits region_A @ hits region_C))"
    by simp
  have s: "set (remdups (hits region_A @ hits region_C)) = set (hits region_A @ hits region_C)"
    by simp
  have c: "start region_A = PyInt 1000 2" "end' region_C = 1500"
    by (simp_all add: region_A_def region_C_def)
  from join_regions_spec [of remdups region_A region_C, OF d s] c show ?thesis
    by simp
qed

section \<open>The hit report parser: properties\<close>

lemma raise_bind_Inr:
  "raise_bind m f = Inr y \<longleftrightarrow> (\<exists>x. m = Inr x \<and> f x = Inr y)"
  by (cases m) (simp_all add: raise_bind_def)

lemma raise_bindE:
  assumes "raise_bind m f = Inr y"
  obtains x where "m = Inr x" and "f x = Inr y"
  using assms by (auto simp: raise_bind_Inr)

lemma header_not_zero_hits:
  assumes "prefix ''# Query:'' line"
  shows "\<not> prefix ''# 0 hits found'' line" and "prefix ''#'' line"
proof -
  show "\<not> prefix ''# 0 hits found'' line"
  proof
    assume "prefix ''# 0 hits found'' line"
    with assms have "prefix ''# Query:'' ''# 0 hits found'' \<or> prefix ''# 0 hits found'' ''# Query:''"
      using prefix_same_cases by blast
    then show False by simp
  qed
  have "prefix ''#'' ''# Query:''" by simp
  then show "prefix ''#'' line" using assms prefix_order.trans by blast
qed

lemma previous_line:
  assumes "line_number < length lines"
  shows "py_index lines (int line_number - 1)
         = Inr (lines ! (if line_number = 0 then length lines - 1 else line_number - 1))"
proof (cases "line_number = 0")
  case True
  with assms show ?thesis by (cases lines) (simp_all add: py_index_def nat_add_distrib)
next
  case False
  then have "nat (int line_number - 1) = line_number - 1" by simp
  with False assms show ?thesis by (simp add: py_index_def)
qed

lemma field_Inr: "field fs k = Inr x \<longleftrightarrow> k < length fs \<and> x = fs ! k"
  by (auto simp: field_def)

lemma blast_hit_of_row_fields:
  assumes "blast_hit_of_row to_float line = Inr h"
  shows "11 < length (fields_in_line False line)
     \<and> accession h = fields_in_line False line ! 1
     \<and> (\<exists>n. py_int (fields_in_line False line ! 10) = Inr n \<and> slen h = n * 3)
     \<and> py_int (fields_in_line False line ! 8) = Inr (s_start h)
     \<and> py_int (fields_in_line False line ! 9) = Inr (s_end h)
     \<and> to_float (fields_in_line False line ! 11) = Inr (eval h)"
  using assms unfolding blast_hit_of_row_def Let_def raise_bind_Inr field_Inr by auto

text \<open>
  Cutting a row at white space, brackets, colons and parentheses gives its columns for as
  long as the columns contain no bracket, colon or parenthesis.
\<close>

lemma cut_at_space_first:
  assumes "cur \<noteq> []"
  shows "\<exists>w rest. filter (\<lambda>f. f \<noteq> []) (cut_at_space cur line) = w # rest \<and> set cur \<subseteq> set w"
  using assms
proof (induction line arbitrary: cur)
  case Nil
  then show ?case by simp
next
  case (Cons c cs)
  show ?case
  proof (cases "is_space c")
    case True
    with Cons.prems show ?thesis by simp
  next
    case False
    have "cur @ [c] \<noteq> []" by simp
    from Cons.IH [OF this] False show ?thesis by auto
  qed
qed

lemma pieces_are_columns:
  assumes "\<forall>c\<in>set cur. c \<notin> set ''[]:()''"
    and "k \<le> length (filter (\<lambda>f. f \<noteq> []) (cut_at_space cur line))"
    and "\<forall>w\<in>set (take k (filter (\<lambda>f. f \<noteq> []) (cut_at_space cur line))).
           \<forall>c\<in>set w. c \<notin> set ''[]:()''"
  shows "take k (filter (\<lambda>f. f \<noteq> []) (re_split False pd cur line))
       = take k (filter (\<lambda>f. f \<noteq> []) (cut_at_space cur line))"
  using assms
proof (induction line arbitrary: cur k pd)
  case Nil
  then show ?case by simp
next
  case (Cons c cs)
  show ?case
  proof (cases "is_space c")
    case True
    show ?thesis
    proof (cases "cur = []")
      case e: True
      from Cons.prems(2,3) True e
      have "k \<le> length (filter (\<lambda>f. f \<noteq> []) (cut_at_space [] cs))"
        and "\<forall>w\<in>set (take k (filter (\<lambda>f. f \<noteq> []) (cut_at_space [] cs))).
               \<forall>c\<in>set w. c \<notin> set ''[]:()''"
        by simp_all
      from Cons.IH [OF _ this, of "is_digit c"] True e show ?thesis
        by simp
    next
      case n: False
      show ?thesis
      proof (cases k)
        case 0
        then show ?thesis by simp
      next
        case (Suc k')
        from Cons.prems(2,3) True n Suc
        have "k' \<le> length (filter (\<lambda>f. f \<noteq> []) (cut_at_space [] cs))"
          and "\<forall>w\<in>set (take k' (filter (\<lambda>f. f \<noteq> []) (cut_at_space [] cs))).
                 \<forall>c\<in>set w. c \<notin> set ''[]:()''"
          by simp_all
        from Cons.IH [OF _ this, of "is_digit c"] True n Suc show ?thesis
          by simp
      qed
    qed
  next
    case False
    show ?thesis
    proof (cases "c \<in> set ''[]:()''")
      case sep: True
      show ?thesis
      proof (cases k)
        case 0
        then show ?thesis by simp
      next
        case (Suc k')
        have "cur @ [c] \<noteq> []" by simp
        from cut_at_space_first [OF this, of cs] obtain w rest where
          w: "filter (\<lambda>f. f \<noteq> []) (cut_at_space (cur @ [c]) cs) = w # rest"
          and "set (cur @ [c]) \<subseteq> set w"
          by blast
        then have "c \<in> set w" by auto
        moreover from Cons.prems(3) False Suc w have "\<forall>c\<in>set w. c \<notin> set ''[]:()''"
          by simp
        ultimately show ?thesis using sep by blast
      qed
    next
      case plain: False
      from Cons.prems(1) plain have 1: "\<forall>c\<in>set (cur @ [c]). c \<notin> set ''[]:()''"
        by auto
      from Cons.prems(2,3) False
      have 2: "k \<le> length (filter (\<lambda>f. f \<noteq> []) (cut_at_space (cur @ [c]) cs))"
        and 3: "\<forall>w\<in>set (take k (filter (\<lambda>f. f \<noteq> []) (cut_at_space (cur @ [c]) cs))).
               \<forall>c\<in>set w. c \<notin> set ''[]:()''"
        by simp_all
      from Cons.IH [OF 1 2 3, of "is_digit c"] False plain show ?thesis
        by simp
    qed
  qed
qed

lemma slen_column:
  assumes "11 \<le> length (columns line)"
    and "\<forall>w\<in>set (take 11 (columns line)). \<forall>c\<in>set w. c \<notin> set ''[]:()''"
  shows "fields_in_line False line ! 10 = columns line ! 10"
proof -
  have "take 11 (fields_in_line False line) = take 11 (columns line)"
    unfolding fields_in_line_def columns_def
    using assms by (intro pieces_are_columns) (simp_all add: columns_def)
  then have "take 11 (fields_in_line False line) ! 10 = take 11 (columns line) ! 10"
    by simp
  then show ?thesis
    by simp
qed

lemma hits_from_rows_update:
  assumes "hits_from_rows rm tf lines d"
    and "d_query info = q"
    and "\<And>hs h. d_hits info = Some hs \<Longrightarrow> h \<in> set hs
           \<Longrightarrow> \<exists>line\<in>set lines. rm (''^'' @ q) line = Inr True \<and> blast_hit_of_row tf line = Inr h"
  shows "hits_from_rows rm tf lines (AList.update q info d)"
  using assms(1)
proof (induction d)
  case Nil
  then show ?case using assms(2,3) by (auto simp: hits_from_rows_def)
next
  case (Cons p d)
  then show ?case using assms(2,3) by (cases p) (auto simp: hits_from_rows_def)
qed

lemma hits_from_rows_delete:
  "hits_from_rows rm tf lines d \<Longrightarrow> hits_from_rows rm tf lines (AList.delete q d)"
  by (auto simp: hits_from_rows_def AList.delete_eq)

lemma hits_from_rows_lookup:
  assumes "hits_from_rows rm tf lines d" and "map_of d q = Some info"
  shows "d_query info = q"
    and "d_hits info = Some hs \<Longrightarrow> h \<in> set hs
      \<Longrightarrow> \<exists>line\<in>set lines. rm (''^'' @ q) line = Inr True \<and> blast_hit_of_row tf line = Inr h"
  using assms(1) map_of_SomeD [OF assms(2)] by (fastforce simp: hits_from_rows_def)+

lemma end_of_hits_dict:
  "end_of_hits rm queries lines n st = Inr st' \<Longrightarrow> QueryDict st' = QueryDict st"
  by (auto simp: end_of_hits_def raise_bind_Inr split: sum.splits if_splits)

lemma parse_line_hits:
  assumes "parse_line rm tf queries lines n st = Inr st'"
    and "n < length lines"
    and "hits_from_rows rm tf lines (QueryDict st)"
  shows "hits_from_rows rm tf lines (QueryDict st')"
proof -
  let ?q = "queries ! queryIndex st" and ?line = "lines ! n"
  from assms(2) have mem: "?line \<in> set lines" by simp
  let ?row = "\<lambda>is_row.
              if is_row then
                (case map_of (QueryDict st) ?q of
                   None \<Rightarrow> Inl KeyError
                 | Some info \<Rightarrow>
                     (let found = (case d_hits info of None \<Rightarrow> [] | Some hs \<Rightarrow> hs) in
                      raise_bind (blast_hit_of_row tf ?line) (\<lambda>h.
                      Inr (st\<lparr>QueryDict :=
                        AList.update ?q (info\<lparr>d_hits := Some (found @ [h])\<rparr>) (QueryDict st)\<rparr>))))
              else Inr st"
  let ?body = "\<lambda>is_header.
            if is_header then
              raise_bind (query_header ?q n ?line) (\<lambda>info.
              Inr (st\<lparr>QueryDict := AList.update ?q info (QueryDict st)\<rparr>))
            else if prefix ''# 0 hits found'' ?line then
              (case map_of (QueryDict st) ?q of
                 None \<Rightarrow> Inl KeyError
               | Some info \<Rightarrow>
                   Inr (st\<lparr>QueryDict := AList.delete ?q (QueryDict st),
                           queryIndex := queryIndex st + 1\<rparr>))
            else raise_bind (rm (''^'' @ ?q) ?line) ?row"
  from assms(1) have idx: "queryIndex st < length queries"
    by (auto simp: parse_line_def Let_def split: if_splits)
  with assms(1) have
    "raise_bind (raise_bind (rm (''^# Query: '' @ ?q) ?line) ?body)
       (end_of_hits rm queries lines n) = Inr st'"
    by (simp add: parse_line_def Let_def)
  then obtain st1 where
    inner: "raise_bind (rm (''^# Query: '' @ ?q) ?line) ?body = Inr st1"
    and st': "end_of_hits rm queries lines n st1 = Inr st'"
    by (rule raise_bindE)
  from inner obtain is_header where
    hd: "rm (''^# Query: '' @ ?q) ?line = Inr is_header"
    and st1: "?body is_header = Inr st1"
    by (rule raise_bindE)
  have "hits_from_rows rm tf lines (QueryDict st1)"
  proof (cases is_header)
    case True
    with st1 obtain info where i: "query_header ?q n ?line = Inr info"
      and s: "st1 = st\<lparr>QueryDict := AList.update ?q info (QueryDict st)\<rparr>"
      by (auto simp: raise_bind_Inr)
    from i have "d_hits info = None" "d_query info = ?q"
      by (auto simp: query_header_def Let_def raise_bind_Inr)
    with s assms(3) show ?thesis by (auto intro!: hits_from_rows_update)
  next
    case h: False
    show ?thesis
    proof (cases "prefix ''# 0 hits found'' ?line")
      case True
      with h st1 show ?thesis using assms(3)
        by (auto simp: hits_from_rows_delete split: option.splits)
    next
      case z: False
      with h st1 have "raise_bind (rm (''^'' @ ?q) ?line) ?row = Inr st1"
        by simp
      then obtain is_row where
        row_match: "rm (''^'' @ ?q) ?line = Inr is_row"
        and st1': "?row is_row = Inr st1"
        by (rule raise_bindE)
      show ?thesis
      proof (cases is_row)
        case True
        with st1' obtain info hit where
          look: "map_of (QueryDict st) ?q = Some info"
          and row: "blast_hit_of_row tf ?line = Inr hit"
          and s: "st1 = st\<lparr>QueryDict := AList.update ?q
                 (info\<lparr>d_hits := Some ((case d_hits info of None \<Rightarrow> [] | Some hs \<Rightarrow> hs) @ [hit])\<rparr>)
                 (QueryDict st)\<rparr>"
          by (auto simp: raise_bind_Inr Let_def split: option.splits)
        have "\<exists>line\<in>set lines. rm (''^'' @ ?q) line = Inr True \<and> blast_hit_of_row tf line = Inr x"
          if "x \<in> set ((case d_hits info of None \<Rightarrow> [] | Some hs \<Rightarrow> hs) @ [hit])" for x
        proof (cases "x = hit")
          case eq: True
          with row mem row_match True show ?thesis by auto
        next
          case False
          with that obtain hs where "d_hits info = Some hs" "x \<in> set hs"
            by (cases "d_hits info") auto
          with hits_from_rows_lookup(2) [OF assms(3) look] show ?thesis by blast
        qed
        moreover from hits_from_rows_lookup(1) [OF assms(3) look] have "d_query info = ?q" .
        ultimately show ?thesis using s assms(3) by (auto intro!: hits_from_rows_update)
      next
        case False
        with st1' assms(3) show ?thesis by simp
      qed
    qed
  qed
  with end_of_hits_dict [OF st'] show ?thesis by simp
qed

lemma parse_loop_hits:
  assumes "parse_loop rm tf queries lines ns st = Inr st'"
    and "\<forall>n\<in>set ns. n < length lines"
    and "hits_from_rows rm tf lines (QueryDict st)"
  shows "hits_from_rows rm tf lines (QueryDict st')"
  using assms
proof (induction ns arbitrary: st)
  case Nil
  then show ?case by simp
next
  case (Cons n ns)
  from Cons.prems(1) obtain st1 where
    one: "parse_line rm tf queries lines n st = Inr st1"
    and rest: "parse_loop rm tf queries lines ns st1 = Inr st'"
    by (auto simp: raise_bind_Inr)
  from parse_line_hits [OF one] Cons.prems have "hits_from_rows rm tf lines (QueryDict st1)"
    by simp
  with Cons.IH [OF rest] Cons.prems(2) show ?case by simp
qed

lemma region_list_hits:
  assumes "region_list fmt fresh d = Inr regionList"
    and "hits_from_rows rm tf lines d"
    and "r \<in> set regionList" and "h \<in> set (hits r)"
  shows "\<exists>line\<in>set lines. rm (''^'' @ query r) line = Inr True \<and> blast_hit_of_row tf line = Inr h"
  using assms
proof (induction d arbitrary: fresh regionList)
  case Nil
  then show ?case by simp
next
  case (Cons p d)
  obtain key info where p: "p = (key, info)" by (cases p)
  from Cons.prems(1) p obtain new more where
    new: "(if fmt = ''BlastP'' then
          (case d_hits info of
             None \<Rightarrow> Inl KeyError
           | Some hs \<Rightarrow>
               Inr [\<lparr>contig = d_contig info, query = d_query info, start = d_start info,
                     end' = d_end info, strand = d_strand info, hits = hs, note' = ''''\<rparr>])
        else if fmt = ''BlastX'' then
          (case d_hits info of
             None \<Rightarrow> Inl KeyError
           | Some hs \<Rightarrow>
               raise_bind (get_intergenic_query_range hs (ival (d_start info)))
                 (\<lambda>(regionStart, regionEnd).
               Inr [\<lparr>contig = d_contig info, query = d_query info,
                     start = PyInt regionStart fresh,
                     end' = regionEnd, strand = d_strand info, hits = hs, note' = ''''\<rparr>]))
        else Inr []) = Inr new"
    and more: "region_list fmt (fresh + 1) d = Inr more"
    and all: "regionList = new @ more"
    by (auto simp: raise_bind_Inr)
  from Cons.prems(2) p have d: "hits_from_rows rm tf lines d"
    and key: "d_query info = key"
    and here: "\<And>hs x. d_hits info = Some hs \<Longrightarrow> x \<in> set hs
        \<Longrightarrow> \<exists>line\<in>set lines. rm (''^'' @ key) line = Inr True \<and> blast_hit_of_row tf line = Inr x"
    by (auto simp: hits_from_rows_def)
  show ?case
  proof (cases "r \<in> set new")
    case True
    with new obtain hs where "d_hits info = Some hs" "hits r = hs" "query r = d_query info"
      by (auto simp: raise_bind_Inr split: if_splits option.splits)
    with here key Cons.prems(4) show ?thesis by simp
  next
    case False
    with all Cons.prems(3) have "r \<in> set more" by simp
    from Cons.IH [OF more d this Cons.prems(4)] show ?thesis .
  qed
qed

text \<open>
  C5, evaluated on a report without its trailer line: one query, whose hit row is the last
  line.  At line 0 the look-up of the previous line reads the last line, which begins with
  the identifier of the query, so the first line ends the hits of the query and the index
  moves to 1; the next line then looks up \<^verbatim>\<open>queries[1]\<close> and the parser stops with an
  \<^verbatim>\<open>IndexError\<close>.  On a report without any query the first line itself stops with an
  \<^verbatim>\<open>IndexError\<close>, at \<^verbatim>\<open>queries[0]\<close> in line 322.
\<close>

theorem first_line_ends_hits:
  "collect_query_ids report_no_trailer = Inr [''Q1'']
   \<and> parse_line literal_match decimal_float [''Q1''] report_no_trailer 0
         \<lparr>queryIndex = 0, QueryDict = []\<rparr>
       = Inr \<lparr>queryIndex = 1, QueryDict = []\<rparr>
   \<and> parse_blast literal_match decimal_float report_no_trailer ''BlastP'' = Inl IndexError
   \<and> parse_line literal_match decimal_float [] report_no_query 0
         \<lparr>queryIndex = 0, QueryDict = []\<rparr>
       = Inl IndexError"
  by code_simp

text \<open>
  C6 as stated fails: this report is a BlastP report, not a translated search, its row
  has the \<^verbatim>\<open>slen\<close> column 192, and the stored target length is 576.
\<close>

theorem blastp_slen_scaled:
  "columns (report_one_query ! 4) ! 10 = ''192''
   \<and> field (fields_in_line False (report_one_query ! 4)) 10 = Inr ''192''
   \<and> parse_blast literal_match decimal_float report_one_query ''BlastP'' =
       Inr [\<lparr>contig = ''c1'', query = ''Q1'', start = PyInt 115 1, end' = 223, strand = ''+'',
             hits = [\<lparr>accession = ''sp|P86052|CYC4'', slen = 576, s_start = 25, s_end = 190,
                      eval = 133 / 10 ^ 42\<rparr>],
             note' = []\<rparr>]"
  by code_simp

text \<open>
  The code takes the target length from piece 10 of the row cut at white space, brackets,
  colons and parentheses.  In a row whose accession contains a colon this piece is the
  \<^verbatim>\<open>send\<close> column: here the \<^verbatim>\<open>slen\<close> column is 192 and the stored target length is three
  times 190.
\<close>

lemma colon_shifts_pieces:
  "columns row_with_colon ! 10 = ''192''
   \<and> fields_in_line False row_with_colon ! 10 = ''190''
   \<and> blast_hit_of_row decimal_float row_with_colon =
       Inr \<lparr>accession = ''eco'', slen = 570, s_start = 225, s_end = 25, eval = 192\<rparr>"
  by code_simp

text \<open>
  C6, amended.  Whatever the format of the report, every hit of every region the parser
  returns is the hit built from one row of the report, a line that the row pattern of the
  query of the region matches.  With the row cut into pieces at white space, brackets,
  colons and parentheses, the accession of the hit is piece 1 of that row, its target
  start, target end and e-value are read from the pieces 8, 9 and 11, and its target
  length is three times the integer in piece 10.  Piece 10 is the \<^verbatim>\<open>slen\<close> column of the
  row whenever none of the first eleven columns of the row contains a bracket, a colon or a
  parenthesis.
\<close>

theorem parse_blast_slen:
  assumes "parse_blast re_match to_float lines blast_format = Inr regionList"
    and "r \<in> set regionList" and "h \<in> set (hits r)"
  shows "\<exists>line\<in>set lines. \<exists>n.
           re_match (''^'' @ query r) line = Inr True
         \<and> blast_hit_of_row to_float line = Inr h
         \<and> 11 < length (fields_in_line False line)
         \<and> accession h = fields_in_line False line ! 1
         \<and> py_int (fields_in_line False line ! 10) = Inr n \<and> slen h = n * 3
         \<and> py_int (fields_in_line False line ! 8) = Inr (s_start h)
         \<and> py_int (fields_in_line False line ! 9) = Inr (s_end h)
         \<and> to_float (fields_in_line False line ! 11) = Inr (eval h)
         \<and> (11 \<le> length (columns line)
              \<and> (\<forall>w\<in>set (take 11 (columns line)). \<forall>c\<in>set w. c \<notin> set ''[]:()'')
            \<longrightarrow> fields_in_line False line ! 10 = columns line ! 10)"
proof -
  from assms(1) obtain queries st where
    loop: "parse_loop re_match to_float queries lines [0..<length lines]
             \<lparr>queryIndex = 0, QueryDict = []\<rparr> = Inr st"
    and regs: "region_list blast_format (length lines) (QueryDict st) = Inr regionList"
    by (auto simp: parse_blast_def raise_bind_Inr)
  have "hits_from_rows re_match to_float lines (QueryDict \<lparr>queryIndex = 0, QueryDict = []\<rparr>)"
    by (simp add: hits_from_rows_def)
  with parse_loop_hits [OF loop] have "hits_from_rows re_match to_float lines (QueryDict st)"
    by simp
  from region_list_hits [OF regs this assms(2,3)]
  obtain line where line: "line \<in> set lines"
    and match: "re_match (''^'' @ query r) line = Inr True"
    and row: "blast_hit_of_row to_float line = Inr h"
    by blast
  from blast_hit_of_row_fields [OF row] obtain n where
    "11 < length (fields_in_line False line)"
    "accession h = fields_in_line False line ! 1"
    "py_int (fields_in_line False line ! 10) = Inr n" "slen h = n * 3"
    "py_int (fields_in_line False line ! 8) = Inr (s_start h)"
    "py_int (fields_in_line False line ! 9) = Inr (s_end h)"
    "to_float (fields_in_line False line ! 11) = Inr (eval h)"
    by blast
  moreover have "fields_in_line False line ! 10 = columns line ! 10"
    if "11 \<le> length (columns line)
        \<and> (\<forall>w\<in>set (take 11 (columns line)). \<forall>c\<in>set w. c \<notin> set ''[]:()'')"
    using that slen_column by blast
  ultimately show ?thesis
    using line match row by blast
qed

theorem parse_blast_slen_witness:
  "parse_blast literal_match decimal_float report_one_query ''BlastX'' =
     Inr [\<lparr>contig = ''c1'', query = ''Q1'', start = PyInt 141 6, end' = 306, strand = ''+'',
           hits = [\<lparr>accession = ''sp|P86052|CYC4'', slen = 576, s_start = 25, s_end = 190,
                    eval = 133 / 10 ^ 42\<rparr>],
           note' = []\<rparr>]
   \<and> (\<exists>n. py_int (fields_in_line False (report_one_query ! 4) ! 10) = Inr n
          \<and> (576::int) = n * 3
          \<and> fields_in_line False (report_one_query ! 4) ! 10 = columns (report_one_query ! 4) ! 10)"
proof -
  let ?h = "\<lparr>accession = ''sp|P86052|CYC4'', slen = 576, s_start = 25, s_end = 190,
             eval = 133 / 10 ^ 42\<rparr>"
  let ?r = "\<lparr>contig = ''c1'', query = ''Q1'', start = PyInt 141 6, end' = 306, strand = ''+'',
             hits = [?h], note' = []\<rparr>"
  let ?row = "report_one_query ! 4"
  have p: "parse_blast literal_match decimal_float report_one_query ''BlastX'' = Inr [?r]"
    by code_simp
  have m: "?r \<in> set [?r]" "?h \<in> set (hits ?r)"
    by simp_all
  from parse_blast_slen [OF p m] obtain line n where
    line: "line \<in> set report_one_query"
    and match: "literal_match (''^'' @ query ?r) line = Inr True"
    and n: "py_int (fields_in_line False line ! 10) = Inr n" "slen ?h = n * 3"
    and col: "11 \<le> length (columns line)
              \<and> (\<forall>w\<in>set (take 11 (columns line)). \<forall>c\<in>set w. c \<notin> set ''[]:()'')
            \<longrightarrow> fields_in_line False line ! 10 = columns line ! 10"
    by blast
  from line match have row: "line = ?row"
    by (auto simp: report_one_query_def literal_match_def)
  have "11 \<le> length (columns ?row)
        \<and> (\<forall>w\<in>set (take 11 (columns ?row)). \<forall>c\<in>set w. c \<notin> set ''[]:()'')"
    by code_simp
  with col row have "fields_in_line False ?row ! 10 = columns ?row ! 10"
    by simp
  with n row p show ?thesis
    by simp
qed

text \<open>
  C4 as stated fails: no error is raised.  In this report the third line is the header of
  \<open>Q2\<close>, read while the index is 0 and \<open>Q1\<close> is expected; the parser returns the region
  of \<open>Q1\<close> and nothing for \<open>Q2\<close>.
\<close>

theorem mismatched_header_no_error:
  "collect_query_ids report_two_headers = Inr [''Q1'', ''Q2'']
   \<and> map_sum id queryIndex
        (parse_loop literal_match decimal_float [''Q1'', ''Q2''] report_two_headers [0, 1]
           \<lparr>queryIndex = 0, QueryDict = []\<rparr>) = Inr 0
   \<and> parse_blast literal_match decimal_float report_two_headers ''BlastP'' =
       Inr [\<lparr>contig = ''c1'', query = ''Q1'', start = PyInt 115 0, end' = 223, strand = ''+'',
             hits = [\<lparr>accession = ''sp|P86052|CYC4'', slen = 576, s_start = 25, s_end = 190,
                      eval = 133 / 10 ^ 42\<rparr>],
             note' = []\<rparr>]"
  by code_simp

text \<open>
  A header is compared with the expected identifier by the pattern of line 322, which
  matches every line that begins with the header of the expected query.  Where \<open>Q1\<close> is
  expected, the header of \<open>Q10\<close> is therefore taken for the header of \<open>Q1\<close>: it replaces
  the record of \<open>Q1\<close>, the hits of \<open>Q1\<close> are lost, and building the regions stops with a
  \<^verbatim>\<open>KeyError\<close>.
\<close>

lemma longer_identifier_overwrites:
  "collect_query_ids report_prefix_ids = Inr [''Q1'', ''Q10'']
   \<and> map_sum id QueryDict
        (parse_loop literal_match decimal_float [''Q1'', ''Q10''] report_prefix_ids [0, 1, 2]
           \<lparr>queryIndex = 0, QueryDict = []\<rparr>)
       = Inr [(''Q1'', \<lparr>d_contig = ''c1'', d_query = ''Q1'', d_start = PyInt 300 2, d_end = 400,
                        d_strand = ''+'', d_hits = None\<rparr>)]
   \<and> parse_blast literal_match decimal_float report_prefix_ids ''BlastP'' = Inl KeyError"
  by code_simp

text \<open>
  C4, amended.  Let the identifier expected at the current index be a regular expression
  that \<^verbatim>\<open>re.match\<close> accepts on the lines of the report.  A line that begins with
  \<^verbatim>\<open># Query:\<close> and is matched neither by the header pattern of the expected identifier
  (\<^verbatim>\<open>^# Query: \<close> followed by the identifier) nor by its row pattern (\<^verbatim>\<open>^\<close> followed by the
  identifier) raises no error and leaves \<^verbatim>\<open>QueryDict\<close> as it was: the data of the header
  is dropped.  If the line is not the first line of the report, the index has moved on by
  one after it exactly when the line before it matches the expected identifier.
\<close>

theorem mismatched_header_skipped:
  assumes "queryIndex st < length queries"
    and "line_number < length lines"
    and "prefix ''# Query:'' (lines ! line_number)"
    and "re_match (''^# Query: '' @ queries ! queryIndex st) (lines ! line_number) = Inr False"
    and "re_match (''^'' @ queries ! queryIndex st) (lines ! line_number) = Inr False"
    and "\<forall>l\<in>set lines. \<exists>found. re_match (queries ! queryIndex st) l = Inr found"
  shows "\<exists>st'. parse_line re_match to_float queries lines line_number st = Inr st'
           \<and> QueryDict st' = QueryDict st
           \<and> (0 < line_number \<longrightarrow> queryIndex st' =
                (if re_match (queries ! queryIndex st) (lines ! (line_number - 1)) = Inr True
                 then queryIndex st + 1 else queryIndex st))"
proof -
  let ?previous = "lines ! (if line_number = 0 then length lines - 1 else line_number - 1)"
  from assms(2) have "?previous \<in> set lines"
    by simp
  with assms(6) obtain found where
    found: "re_match (queries ! queryIndex st) ?previous = Inr found"
    by blast
  have "parse_line re_match to_float queries lines line_number st =
          Inr (if found then st\<lparr>queryIndex := queryIndex st + 1\<rparr> else st)"
    using assms(1,4,5) header_not_zero_hits [OF assms(3)] previous_line [OF assms(2)] found
    by (simp add: parse_line_def raise_bind_def end_of_hits_def Let_def)
  moreover have "re_match (queries ! queryIndex st) (lines ! (line_number - 1)) = Inr found"
    if "0 < line_number"
    using that found by simp
  ultimately show ?thesis
    by (cases found) simp_all
qed

theorem mismatched_header_skipped_witness:
  "parse_line literal_match decimal_float [''Q1'', ''Q2''] report_two_headers 2
     \<lparr>queryIndex = 0, QueryDict = []\<rparr>
     = Inr \<lparr>queryIndex = 1, QueryDict = []\<rparr>"
proof -
  let ?st = "\<lparr>queryIndex = 0, QueryDict = []\<rparr>"
  let ?qs = "[''Q1'', ''Q2'']"
  have h1: "queryIndex ?st < length ?qs"
    by simp
  have h2: "2 < length report_two_headers"
    by (simp add: report_two_headers_def)
  have h3: "prefix ''# Query:'' (report_two_headers ! 2)"
    by (simp add: report_two_headers_def)
  have h4: "literal_match (''^# Query: '' @ ?qs ! queryIndex ?st) (report_two_headers ! 2)
            = Inr False"
    by (simp add: report_two_headers_def literal_match_def)
  have h5: "literal_match (''^'' @ ?qs ! queryIndex ?st) (report_two_headers ! 2) = Inr False"
    by (simp add: report_two_headers_def literal_match_def)
  have h6: "\<forall>l\<in>set report_two_headers.
              \<exists>found. literal_match (?qs ! queryIndex ?st) l = Inr found"
    by (simp add: literal_match_def)
  have previous: "literal_match (?qs ! queryIndex ?st) (report_two_headers ! (2 - 1)) = Inr True"
    by (simp add: report_two_headers_def literal_match_def)
  from mismatched_header_skipped
         [where st = ?st and queries = ?qs and line_number = 2
            and lines = report_two_headers and re_match = literal_match
            and to_float = decimal_float, OF h1 h2 h3 h4 h5 h6]
  obtain st' where
    "parse_line literal_match decimal_float ?qs report_two_headers 2 ?st = Inr st'"
    "QueryDict st' = QueryDict ?st"
    "queryIndex st' = queryIndex ?st + 1"
    using previous by auto
  then show ?thesis
    by (cases st') simp
qed

section \<open>The individual-region classifier: properties\<close>

text \<open>The rounding to a double: its error is at most one part in \<open>2 ^ 53\<close>.\<close>

lemma round_half_even_near: "\<bar>of_int (round_half_even y) - y\<bar> \<le> 1 / 2"
proof -
  define f where "f = \<lfloor>y\<rfloor>"
  have lo: "of_int f \<le> y" and hi: "y < of_int f + 1"
    unfolding f_def by linarith+
  consider (down) "round_half_even y = f" "y - of_int f \<le> 1 / 2"
    | (up) "round_half_even y = f + 1" "1 / 2 \<le> y - of_int f"
    unfolding round_half_even_def Let_def f_def [symmetric]
    by (cases "y - of_int f < 1 / 2"; cases "1 / 2 < y - of_int f"; cases "even f") auto
  then show ?thesis
  proof cases
    case down
    with lo show ?thesis by simp
  next
    case up
    with hi show ?thesis by simp
  qed
qed

lemma bitlen_bounds_rat:
  assumes "0 < (p::int)"
  shows "(2::rat) powi (bitlen p - 1) \<le> of_int p" and "of_int p < (2::rat) powi bitlen p"
proof -
  from bitlen_bounds [OF assms] have lo: "2 ^ nat (bitlen p - 1) \<le> p" and hi: "p < 2 ^ nat (bitlen p)"
    by simp_all
  from assms have pos: "0 < bitlen p"
    using bitlen_eq_zero_iff [of p] bitlen_nonneg [of p] by linarith
  from lo have "(of_int (2 ^ nat (bitlen p - 1)) :: rat) \<le> of_int p"
    by (simp only: of_int_le_iff)
  then show "(2::rat) powi (bitlen p - 1) \<le> of_int p"
    using pos by (simp add: power_int_def)
  from hi have "(of_int p :: rat) < of_int (2 ^ nat (bitlen p))"
    by (simp only: of_int_less_iff)
  then show "of_int p < (2::rat) powi bitlen p"
    using pos by (simp add: power_int_def)
qed

lemma binary_exponent_bounds:
  assumes "x \<noteq> 0"
  shows "2 powi binary_exponent x \<le> \<bar>x\<bar>" and "\<bar>x\<bar> < 2 powi (binary_exponent x + 1)"
proof -
  obtain p q where pq: "quotient_of \<bar>x\<bar> = (p, q)"
    by (cases "quotient_of \<bar>x\<bar>")
  then have q: "0 < q" and x: "\<bar>x\<bar> = of_int p / of_int q"
    using quotient_of_denom_pos quotient_of_div by blast+
  from assms have "0 < \<bar>x\<bar>" by simp
  with x q have p: "0 < p"
    by (simp add: zero_less_divide_iff)
  define a b where "a = bitlen p" and "b = bitlen q"
  note pb = bitlen_bounds_rat [OF p, folded a_def] and qb = bitlen_bounds_rat [OF q, folded b_def]
  have qpos: "(0::rat) < of_int q" using q by simp
  have up: "\<bar>x\<bar> < 2 powi (a - b + 1)"
  proof -
    have "of_int p < (2::rat) powi (a - b + 1) * 2 powi (b - 1)"
      using pb(2) by (simp add: power_int_add [symmetric])
    also have "\<dots> \<le> 2 powi (a - b + 1) * of_int q"
      using qb(1) by (simp add: mult_left_mono)
    finally show ?thesis
      using qpos by (simp add: x pos_divide_less_eq)
  qed
  have down: "2 powi (a - b - 1) \<le> \<bar>x\<bar>"
  proof -
    have "(2::rat) powi (a - b - 1) * of_int q \<le> 2 powi (a - b - 1) * 2 powi b"
      using qb(2) by (simp add: mult_left_mono less_imp_le)
    also have "\<dots> = 2 powi (a - 1)"
      by (simp add: power_int_add [symmetric])
    also have "\<dots> \<le> of_int p"
      by (rule pb(1))
    finally show ?thesis
      using qpos by (simp add: x pos_le_divide_eq)
  qed
  have e: "binary_exponent x = (if 2 powi (a - b) \<le> \<bar>x\<bar> then a - b else a - b - 1)"
    by (simp add: binary_exponent_def pq a_def b_def Let_def)
  show "2 powi binary_exponent x \<le> \<bar>x\<bar>"
    unfolding e using down by simp
  show "\<bar>x\<bar> < 2 powi (binary_exponent x + 1)"
    unfolding e using up by (auto simp: not_le)
qed

lemma fl_error:
  assumes "x \<noteq> 0"
  shows "\<bar>fl x - x\<bar> \<le> \<bar>x\<bar> / 2 ^ 53"
proof -
  define ulp :: rat where "ulp = 2 powi (binary_exponent x - 52)"
  have ulp: "0 < ulp" by (simp add: ulp_def)
  have f: "fl x = of_int (round_half_even (x / ulp)) * ulp"
    using assms by (simp add: fl_def ulp_def Let_def)
  have "fl x - x = (of_int (round_half_even (x / ulp)) - x / ulp) * ulp"
    using ulp by (simp add: f algebra_simps)
  then have "\<bar>fl x - x\<bar> = \<bar>of_int (round_half_even (x / ulp)) - x / ulp\<bar> * ulp"
    using ulp by (simp add: abs_mult)
  also have "\<dots> \<le> 1 / 2 * ulp"
    using round_half_even_near [of "x / ulp"] ulp by (simp add: mult_right_mono)
  also have "\<dots> = 2 powi binary_exponent x / 2 ^ 53"
    by (simp add: ulp_def power_int_diff)
  also have "\<dots> \<le> \<bar>x\<bar> / 2 ^ 53"
    using binary_exponent_bounds(1) [OF assms] by (simp add: divide_right_mono)
  finally show ?thesis .
qed

lemma fl_eq_0_iff: "fl x = 0 \<longleftrightarrow> x = 0"
proof
  assume z: "fl x = 0"
  show "x = 0"
  proof (rule ccontr)
    assume n: "x \<noteq> 0"
    from fl_error [OF n] z have "\<bar>x\<bar> \<le> \<bar>x\<bar> / 2 ^ 53"
      by simp
    moreover from n have "\<bar>x\<bar> / 2 ^ 53 < \<bar>x\<bar>"
      by simp
    ultimately show False by simp
  qed
next
  assume "x = 0"
  then show "fl x = 0" by (simp add: fl_def)
qed

text \<open>The ratio exists exactly when the hit lengths do not sum to zero.\<close>

lemma length_ratio_defined:
  assumes "hits r \<noteq> []" and "sum_list (map slen (hits r)) \<noteq> 0"
  shows "length_ratio r =
     Inr (fl (fl (of_int (end' r - ival (start r)))
            / fl (of_int (sum_list (map slen (hits r))) / of_nat (length (hits r)))))"
  using assms by (simp add: length_ratio_def Let_def fl_eq_0_iff)

lemma flagged_region:
  "convert_region_to_pseudo str_float r x =
     r\<lparr>query := ''locus_tag=pseudo_uniqueID'',
       note' := ''Note=pseudogene candidate. Reason: ORF is ''
                @ str_float (fl (of_int (round_half_even (x * 10)) / 10))
                @ ''% of the average length of hits to this gene.;colour=229 204 255''\<rparr>"
  by (simp add: convert_region_to_pseudo_def py_round1_def)

lemma flag_regions_eq:
  assumes "\<forall>r\<in>set rs. hits r \<noteq> [] \<and> sum_list (map slen (hits r)) \<noteq> 0"
  shows "flag_regions sf c rs lopg =
     Inr (lopg @ map (\<lambda>r. convert_region_to_pseudo sf r
            (fl (fl (fl (of_int (end' r - ival (start r)))
               / fl (of_int (sum_list (map slen (hits r))) / of_nat (length (hits r)))) * 100)))
          (filter (\<lambda>r. fl (fl (of_int (end' r - ival (start r)))
               / fl (of_int (sum_list (map slen (hits r))) / of_nat (length (hits r)))) < c) rs))"
  using assms
proof (induction rs arbitrary: lopg)
  case Nil
  then show ?case by simp
next
  case (Cons r rs)
  then have "hits r \<noteq> []" "sum_list (map slen (hits r)) \<noteq> 0"
    and rest: "\<forall>r\<in>set rs. hits r \<noteq> [] \<and> sum_list (map slen (hits r)) \<noteq> 0"
    by simp_all
  note lr = length_ratio_defined [OF this(1,2)]
  show ?case
    by (simp add: lr Cons.IH [OF rest])
qed

lemma flagged_hits:
  assumes "flag_regions sf c rs lopg = Inr out"
    and "\<forall>r\<in>set rs. 2 < length (hits r)" and "\<forall>p\<in>set lopg. 2 < length (hits p)"
  shows "\<forall>p\<in>set out. 2 < length (hits p)"
  using assms
proof (induction rs arbitrary: lopg)
  case Nil
  then show ?case by simp
next
  case (Cons r rs)
  have r: "2 < length (hits r)" and rs: "\<forall>r\<in>set rs. 2 < length (hits r)"
    using Cons.prems(2) by simp_all
  obtain Ratio where lr: "length_ratio r = Inr Ratio"
    using Cons.prems(1) by (cases "length_ratio r") simp_all
  show ?case
  proof (cases "Ratio < c")
    case True
    have run: "flag_regions sf c rs (lopg @ [convert_region_to_pseudo sf r (fl (Ratio * 100))]) = Inr out"
      using Cons.prems(1) lr True by simp
    have "hits (convert_region_to_pseudo sf r (fl (Ratio * 100))) = hits r"
      by (simp add: convert_region_to_pseudo_def)
    with r Cons.prems(3)
    have acc: "\<forall>p\<in>set (lopg @ [convert_region_to_pseudo sf r (fl (Ratio * 100))]). 2 < length (hits p)"
      by simp
    show ?thesis
      by (rule Cons.IH [OF run rs acc])
  next
    case False
    have run: "flag_regions sf c rs lopg = Inr out"
      using Cons.prems(1) lr False by simp
    show ?thesis
      by (rule Cons.IH [OF run rs Cons.prems(3)])
  qed
qed

text \<open>
  C7 as stated fails on a list that holds a region whose hit lengths sum to zero:
  \<open>short_orf\<close> has five hits and a length of half their average, below the cutoff 3/5,
  and is not flagged, because the call stops with \<^verbatim>\<open>ZeroDivisionError\<close> at \<open>zero_orf\<close>.
\<close>

theorem zero_average_stops_flagging:
  "2 < length (hits short_orf)
   \<and> of_int (end' short_orf - ival (start short_orf))
       / (of_int (sum_list (map slen (hits short_orf))) / of_nat (length (hits short_orf)))
     < (3 / 5 :: rat)
   \<and> check_individual_ORFs str_tenths [zero_orf, short_orf] (3 / 5) = Inl ZeroDivisionError"
  by code_simp

text \<open>
  C7, amended.  Take a list of regions in which every region with more than two hits has
  its start at or before its end, hit lengths with a positive sum, and a length, a sum of
  hit lengths and a number of hits below \<open>2 ^ 63\<close>.  On such a list
  \<^verbatim>\<open>check_individual_ORFs\<close> returns, in the order of the list, one region for each
  region that has more than 2 hits and whose ratio is below the cutoff, and nothing else.
  The ratio is the quotient of the region's length by the average hit length as the code
  computes it, in double precision.  The returned region is the input region with the
  placeholder as query and with a note that carries the ratio times 100, again a double,
  rounded to one decimal as \<^verbatim>\<open>round\<close> does.  No returned region has exactly 2 hits.
\<close>

theorem check_individual_ORFs_spec:
  assumes "\<forall>r\<in>set lori. 2 < length (hits r) \<longrightarrow>
             0 \<le> end' r - ival (start r) \<and> end' r - ival (start r) < 2 ^ 63
           \<and> 0 < sum_list (map slen (hits r)) \<and> sum_list (map slen (hits r)) < 2 ^ 63
           \<and> length (hits r) < 2 ^ 63"
  shows "check_individual_ORFs str_float lori c =
     Inr (map (\<lambda>r. r\<lparr>query := ''locus_tag=pseudo_uniqueID'',
                     note' := ''Note=pseudogene candidate. Reason: ORF is ''
                       @ str_float (fl (of_int (round_half_even
                           (fl (fl (fl (of_int (end' r - ival (start r)))
                                 / fl (of_int (sum_list (map slen (hits r)))
                                         / of_nat (length (hits r)))) * 100) * 10)) / 10))
                       @ ''% of the average length of hits to this gene.;colour=229 204 255''\<rparr>)
          (filter (\<lambda>r. 2 < length (hits r)
             \<and> fl (fl (of_int (end' r - ival (start r)))
                   / fl (of_int (sum_list (map slen (hits r))) / of_nat (length (hits r)))) < c)
             lori))
   \<and> (\<forall>out. check_individual_ORFs str_float lori c = Inr out
          \<longrightarrow> (\<forall>p\<in>set out. length (hits p) \<noteq> 2))"
proof -
  have "\<forall>r\<in>set (filter (\<lambda>region. 2 < length (hits region)) lori).
          hits r \<noteq> [] \<and> sum_list (map slen (hits r)) \<noteq> 0"
    using assms by auto
  from flag_regions_eq [OF this, of str_float c "[]"]
  have a: "check_individual_ORFs str_float lori c =
     Inr (map (\<lambda>r. r\<lparr>query := ''locus_tag=pseudo_uniqueID'',
                     note' := ''Note=pseudogene candidate. Reason: ORF is ''
                       @ str_float (fl (of_int (round_half_even
                           (fl (fl (fl (of_int (end' r - ival (start r)))
                                 / fl (of_int (sum_list (map slen (hits r)))
                                         / of_nat (length (hits r)))) * 100) * 10)) / 10))
                       @ ''% of the average length of hits to this gene.;colour=229 204 255''\<rparr>)
          (filter (\<lambda>r. 2 < length (hits r)
             \<and> fl (fl (of_int (end' r - ival (start r)))
                   / fl (of_int (sum_list (map slen (hits r))) / of_nat (length (hits r)))) < c)
             lori))"
    by (simp add: check_individual_ORFs_def Let_def flagged_region)
  have b: "\<forall>p\<in>set out. length (hits p) \<noteq> 2"
    if "check_individual_ORFs str_float lori c = Inr out" for out
  proof -
    from that have "flag_regions str_float c (filter (\<lambda>region. 2 < length (hits region)) lori) [] = Inr out"
      by (simp add: check_individual_ORFs_def Let_def)
    from flagged_hits [OF this] show ?thesis by fastforce
  qed
  from b have b': "\<forall>out. check_individual_ORFs str_float lori c = Inr out
          \<longrightarrow> (\<forall>p\<in>set out. length (hits p) \<noteq> 2)"
    by blast
  show ?thesis
    by (rule conjI [OF a b'])
qed

theorem check_individual_ORFs_spec_witness:
  "check_individual_ORFs str_tenths [short_orf, orf_69] (3 / 5) =
       Inr [short_orf\<lparr>query := ''locus_tag=pseudo_uniqueID'',
              note' := ''Note=pseudogene candidate. Reason: ORF is 50.0% of the average length of hits to this gene.;colour=229 204 255''\<rparr>,
            orf_69\<lparr>query := ''locus_tag=pseudo_uniqueID'',
              note' := ''Note=pseudogene candidate. Reason: ORF is 28.7% of the average length of hits to this gene.;colour=229 204 255''\<rparr>]"
proof -
  have h: "\<forall>r\<in>set [short_orf, orf_69]. 2 < length (hits r) \<longrightarrow>
             0 \<le> end' r - ival (start r) \<and> end' r - ival (start r) < 2 ^ 63
           \<and> 0 < sum_list (map slen (hits r)) \<and> sum_list (map slen (hits r)) < 2 ^ 63
           \<and> length (hits r) < 2 ^ 63"
    by (simp add: short_orf_def orf_69_def hit_at_def)
  have e: "map (\<lambda>r. r\<lparr>query := ''locus_tag=pseudo_uniqueID'',
                     note' := ''Note=pseudogene candidate. Reason: ORF is ''
                       @ str_tenths (fl (of_int (round_half_even
                           (fl (fl (fl (of_int (end' r - ival (start r)))
                                 / fl (of_int (sum_list (map slen (hits r)))
                                         / of_nat (length (hits r)))) * 100) * 10)) / 10))
                       @ ''% of the average length of hits to this gene.;colour=229 204 255''\<rparr>)
          (filter (\<lambda>r. 2 < length (hits r)
             \<and> fl (fl (of_int (end' r - ival (start r)))
                   / fl (of_int (sum_list (map slen (hits r))) / of_nat (length (hits r))))
               < (3 / 5 :: rat))
             [short_orf, orf_69])
         = [short_orf\<lparr>query := ''locus_tag=pseudo_uniqueID'',
              note' := ''Note=pseudogene candidate. Reason: ORF is 50.0% of the average length of hits to this gene.;colour=229 204 255''\<rparr>,
            orf_69\<lparr>query := ''locus_tag=pseudo_uniqueID'',
              note' := ''Note=pseudogene candidate. Reason: ORF is 28.7% of the average length of hits to this gene.;colour=229 204 255''\<rparr>]"
    by code_simp
  from check_individual_ORFs_spec [OF h, of str_tenths "3 / 5", THEN conjunct1]
  show ?thesis
    unfolding e .
qed

text \<open>
  The number with one decimal in the note is within 1/20 of the double it rounds, and each
  double is within one part in \<open>2 ^ 53\<close> of the exact result of its operation
  (\<open>fl_error\<close>).  The rounding follows the double, not the exact quotient: for \<open>orf_69\<close>
  the exact percentage is 28.75, the double below it is written as 28.7.
\<close>

lemma note_percentage:
  "\<bar>of_int (round_half_even (x * 10)) / 10 - x\<bar> \<le> 1 / 20"
proof -
  have "\<bar>of_int (round_half_even (x * 10)) - x * 10\<bar> \<le> 1 / 2"
    by (rule round_half_even_near)
  moreover have "of_int (round_half_even (x * 10)) / 10 - x
                 = (of_int (round_half_even (x * 10)) - x * 10) / 10"
    by (simp add: diff_divide_distrib)
  ultimately show ?thesis
    by (simp only: abs_divide)
qed

lemma orf_69_percentage:
  "of_int (end' orf_69 - ival (start orf_69))
     / (of_int (sum_list (map slen (hits orf_69))) / of_nat (length (hits orf_69))) * 100
   = (115 / 4 :: rat)
   \<and> fl (fl (fl (of_int (end' orf_69 - ival (start orf_69)))
         / fl (of_int (sum_list (map slen (hits orf_69))) / of_nat (length (hits orf_69)))) * 100)
     = 8092405580431359 / 2 ^ 48"
  by code_simp

section \<open>The adjacency merge engine: properties\<close>

lemma del_pair:
  assumes "i + 1 < length l"
  shows "del_at i (del_at (i + 1) l) = take i l @ drop (i + 2) l"
  using assms by (simp add: del_at_def min_def)

lemma del_triple:
  assumes "i + 2 < length l"
  shows "del_at i (del_at (i + 1) (del_at (i + 2) l)) = take i l @ drop (i + 3) l"
  using assms by (simp add: del_at_def min_def numeral_3_eq_3)

lemma split_pair:
  assumes "i + 1 < length l"
  shows "l = take i l @ [l ! i, l ! (i + 1)] @ drop (i + 2) l"
proof -
  from assms have "drop i l = l ! i # drop (Suc i) l" "drop (Suc i) l = l ! Suc i # drop (Suc (Suc i)) l"
    by (simp_all add: Cons_nth_drop_Suc)
  then have "drop i l = [l ! i, l ! (i + 1)] @ drop (i + 2) l"
    by simp
  then show ?thesis
    by (metis append_take_drop_id)
qed

lemma split_triple:
  assumes "i + 2 < length l"
  shows "l = take i l @ [l ! i, l ! (i + 1), l ! (i + 2)] @ drop (i + 3) l"
proof -
  from assms have "drop i l = l ! i # drop (Suc i) l" "drop (Suc i) l = l ! Suc i # drop (Suc (Suc i)) l"
    "drop (Suc (Suc i)) l = l ! Suc (Suc i) # drop (Suc (Suc (Suc i))) l"
    by (simp_all add: Cons_nth_drop_Suc)
  then have "drop i l = [l ! i, l ! (i + 1), l ! (i + 2)] @ drop (i + 3) l"
    by (simp add: numeral_3_eq_3)
  then show ?thesis
    by (metis append_take_drop_id)
qed

lemma adjacent_step_cases:
  assumes "loop_guard s"
  shows "adjacent_step set_iter cutoff s =
     (let l = sorted_lori s; i = idx s in
      if compare_regions (l ! i) (l ! (i + 1)) cutoff then
        new_pseudo_made s (join_regions set_iter (l ! i) (l ! (i + 1)))
          (count_new [l ! i, l ! (i + 1)]) (take i l @ drop (i + 2) l)
      else if i + 2 < length l \<and> compare_regions (l ! i) (l ! (i + 2)) cutoff then
        new_pseudo_made s (join_regions set_iter (l ! i) (l ! (i + 2)))
          (count_new [l ! i, l ! (i + 1), l ! (i + 2)]) (take i l @ drop (i + 3) l)
      else record_individual s)"
proof -
  from assms have lt: "idx s + 1 < length (sorted_lori s)"
    by (simp add: loop_guard_def)
  have three: "int (idx s) < int (length (sorted_lori s)) - 2 \<longleftrightarrow> idx s + 2 < length (sorted_lori s)"
    by auto
  show ?thesis
    unfolding adjacent_step_def Let_def three
    using del_pair [OF lt] del_triple [of "idx s" "sorted_lori s"]
    by simp
qed


lemma count_new_append: "count_new (xs @ ys) = count_new xs + count_new ys"
  by (simp add: count_new_def)

lemma count_new_sort: "count_new (sort_key f xs) = count_new xs"
  by (simp add: count_new_def filter_sort)

lemma count_new_join: "count_new [join_regions set_iter a b] = 0"
  using sublist_frag_note by (simp add: count_new_def join_regions_def Let_def)

lemma count_new_le: "count_new xs \<le> length xs"
  by (simp add: count_new_def)

lemma new_pseudo_made_count:
  assumes "count_new l = count_new rest + n" and "count_new [pseudo] = 0"
  shows "FragmentedOrfs (new_pseudo_made s pseudo n rest)
           + count_new (sorted_lori (new_pseudo_made s pseudo n rest))
         = FragmentedOrfs s + count_new l"
  using assms by (simp add: new_pseudo_made_def count_new_sort count_new_append)

lemma adjacent_step_count:
  assumes "loop_guard s"
  shows "FragmentedOrfs (adjacent_step set_iter cutoff s)
           + count_new (sorted_lori (adjacent_step set_iter cutoff s))
         = FragmentedOrfs s + count_new (sorted_lori s)"
proof -
  let ?l = "sorted_lori s" and ?i = "idx s"
  from assms have lt: "?i + 1 < length ?l"
    by (simp add: loop_guard_def)
  have two: "count_new ?l = count_new (take ?i ?l @ drop (?i + 2) ?l) + count_new [?l ! ?i, ?l ! (?i + 1)]"
    using arg_cong [OF split_pair [OF lt], of count_new]
    unfolding count_new_append by linarith
  have three: "count_new ?l = count_new (take ?i ?l @ drop (?i + 3) ?l)
      + count_new [?l ! ?i, ?l ! (?i + 1), ?l ! (?i + 2)]" if "?i + 2 < length ?l"
    using arg_cong [OF split_triple [OF that], of count_new]
    unfolding count_new_append by linarith
  show ?thesis
    unfolding adjacent_step_cases [OF assms] Let_def
    using new_pseudo_made_count [OF two count_new_join] new_pseudo_made_count [OF three count_new_join]
    by (simp add: record_individual_def)
qed

lemma adjacent_step_progress:
  assumes "loop_guard s"
  shows "(length (sorted_lori (adjacent_step set_iter cutoff s)) < length (sorted_lori s)
          \<and> idx s \<le> idx (adjacent_step set_iter cutoff s) + 1)
       \<or> (sorted_lori (adjacent_step set_iter cutoff s) = sorted_lori s
          \<and> idx (adjacent_step set_iter cutoff s) = idx s + 1)"
proof -
  from assms have lt: "idx s + 1 < length (sorted_lori s)"
    by (simp add: loop_guard_def)
  show ?thesis
    unfolding adjacent_step_cases [OF assms] Let_def
    using lt by (auto simp: new_pseudo_made_def record_individual_def)
qed

lemma adjacent_step_measure:
  assumes "loop_guard s"
  shows "2 * length (sorted_lori (adjacent_step set_iter cutoff s))
           - idx (adjacent_step set_iter cutoff s)
         < 2 * length (sorted_lori s) - idx s"
proof -
  let ?s' = "adjacent_step set_iter cutoff s"
  from assms have lt: "idx s + 1 < length (sorted_lori s)"
    by (simp add: loop_guard_def)
  from adjacent_step_progress [OF assms, of set_iter cutoff]
  consider (fuse) "length (sorted_lori ?s') < length (sorted_lori s)" "idx s \<le> idx ?s' + 1"
    | (move) "length (sorted_lori ?s') = length (sorted_lori s)" "idx ?s' = idx s + 1"
    by auto
  then show ?thesis
  proof cases
    case fuse
    with lt show ?thesis by arith
  next
    case move
    with lt show ?thesis by arith
  qed
qed

lemma adjacent_loop_unfold:
  "adjacent_loop set_iter cutoff s =
     (if loop_guard s then adjacent_loop set_iter cutoff (adjacent_step set_iter cutoff s) else s)"
  by (rule adjacent_loop.simps)

lemma adjacent_loop_steps:
  "\<exists>k\<le>2 * length (sorted_lori s) - idx s.
      \<not> loop_guard ((adjacent_step set_iter cutoff ^^ k) s)
      \<and> adjacent_loop set_iter cutoff s = (adjacent_step set_iter cutoff ^^ k) s"
proof (induction set_iter cutoff s rule: adjacent_loop.induct)
  case (1 set_iter cutoff s)
  show ?case
  proof (cases "loop_guard s")
    case False
    then have "\<not> loop_guard ((adjacent_step set_iter cutoff ^^ 0) s)
      \<and> adjacent_loop set_iter cutoff s = (adjacent_step set_iter cutoff ^^ 0) s"
      by (simp add: adjacent_loop_unfold [of set_iter cutoff s])
    then show ?thesis by blast
  next
    case True
    let ?s' = "adjacent_step set_iter cutoff s"
    from "1.IH" [OF True] obtain k where
      k: "k \<le> 2 * length (sorted_lori ?s') - idx ?s'"
      and stop: "\<not> loop_guard ((adjacent_step set_iter cutoff ^^ k) ?s')"
      and run: "adjacent_loop set_iter cutoff ?s' = (adjacent_step set_iter cutoff ^^ k) ?s'"
      by blast
    from k adjacent_step_measure [OF True, of set_iter cutoff]
    have "Suc k \<le> 2 * length (sorted_lori s) - idx s"
      by simp
    moreover have "(adjacent_step set_iter cutoff ^^ Suc k) s = (adjacent_step set_iter cutoff ^^ k) ?s'"
      by (simp add: funpow_swap1)
    moreover have "adjacent_loop set_iter cutoff s = adjacent_loop set_iter cutoff ?s'"
      using True by (simp add: adjacent_loop_unfold [of set_iter cutoff s])
    ultimately show ?thesis
      using stop run by metis
  qed
qed

lemma adjacent_loop_invariant:
  assumes "P s" and "\<And>s. P s \<Longrightarrow> loop_guard s \<Longrightarrow> P (adjacent_step set_iter cutoff s)"
  shows "P (adjacent_loop set_iter cutoff s)"
  using assms
proof (induction set_iter cutoff s rule: adjacent_loop.induct)
  case (1 set_iter cutoff s)
  show ?case
  proof (cases "loop_guard s")
    case True
    from "1.prems"(1) True have "P (adjacent_step set_iter cutoff s)"
      by (rule "1.prems"(2))
    from "1.IH" [OF True this "1.prems"(2)] True show ?thesis
      by (simp add: adjacent_loop_unfold [of set_iter cutoff s])
  next
    case False
    with "1.prems"(1) show ?thesis
      by (simp add: adjacent_loop_unfold [of set_iter cutoff s])
  qed
qed

lemma adjacent_step_fuse:
  assumes "loop_guard s" and "NewPseudoMade cutoff s"
  shows "length (sorted_lori (adjacent_step set_iter cutoff s)) < length (sorted_lori s)"
    and "idx s \<le> idx (adjacent_step set_iter cutoff s) + 1"
    and "IndividualList (adjacent_step set_iter cutoff s) = IndividualList s"
proof -
  from assms(1) have lt: "idx s + 1 < length (sorted_lori s)"
    by (simp add: loop_guard_def)
  have three: "int (idx s) < int (length (sorted_lori s)) - 2 \<longleftrightarrow> idx s + 2 < length (sorted_lori s)"
    by auto
  from assms(2) have f: "compare_regions (sorted_lori s ! idx s) (sorted_lori s ! (idx s + 1)) cutoff
      \<or> (idx s + 2 < length (sorted_lori s)
          \<and> compare_regions (sorted_lori s ! idx s) (sorted_lori s ! (idx s + 2)) cutoff)"
    unfolding NewPseudoMade_def Let_def three by simp
  show "length (sorted_lori (adjacent_step set_iter cutoff s)) < length (sorted_lori s)"
    unfolding adjacent_step_cases [OF assms(1)] Let_def
    using lt f by (auto simp: new_pseudo_made_def)
  show "idx s \<le> idx (adjacent_step set_iter cutoff s) + 1"
    unfolding adjacent_step_cases [OF assms(1)] Let_def
    using lt f by (auto simp: new_pseudo_made_def)
  show "IndividualList (adjacent_step set_iter cutoff s) = IndividualList s"
    unfolding adjacent_step_cases [OF assms(1)] Let_def
    using lt f by (auto simp: new_pseudo_made_def)
qed

lemma adjacent_step_move:
  assumes "loop_guard s" and "\<not> NewPseudoMade cutoff s"
  shows "adjacent_step set_iter cutoff s = record_individual s"
proof -
  have three: "int (idx s) < int (length (sorted_lori s)) - 2 \<longleftrightarrow> idx s + 2 < length (sorted_lori s)"
    by auto
  from assms(2) have "\<not> compare_regions (sorted_lori s ! idx s) (sorted_lori s ! (idx s + 1)) cutoff"
    and "\<not> (idx s + 2 < length (sorted_lori s)
          \<and> compare_regions (sorted_lori s ! idx s) (sorted_lori s ! (idx s + 2)) cutoff)"
    unfolding NewPseudoMade_def Let_def three by simp_all
  then show ?thesis
    unfolding adjacent_step_cases [OF assms(1)] Let_def by auto
qed

lemma record_individual_simps:
  "sorted_lori (record_individual s) = sorted_lori s"
  "idx (record_individual s) = idx s + 1"
  "MergedList (record_individual s) = MergedList s"
  "FragmentedOrfs (record_individual s) = FragmentedOrfs s"
  "IndividualList (record_individual s) = IndividualList s
   \<or> IndividualList (record_individual s)
       = replace_by_start (sorted_lori s ! idx s) (IndividualList s)"
  by (simp_all add: record_individual_def)

lemma fragmented_orfs_bound: "fragmented_orfs_added set_iter lori cutoff \<le> length lori"
proof -
  let ?Q = "\<lambda>s. FragmentedOrfs s + count_new (sorted_lori s) \<le> length lori"
  have "?Q (initial_state lori)"
    using count_new_le [of lori] by (simp add: initial_state_def count_new_sort)
  then have "?Q (adjacent_loop set_iter cutoff (initial_state lori))"
  proof (rule adjacent_loop_invariant)
    fix s assume "?Q s" "loop_guard s"
    with adjacent_step_count [of s set_iter cutoff]
    show "?Q (adjacent_step set_iter cutoff s)" by simp
  qed
  then show ?thesis
    by (simp add: fragmented_orfs_added_def)
qed

text \<open>
  C8.  The loop of \<^verbatim>\<open>check_adjacent_regions\<close> ends after at most twice as many passes as
  the input has regions.  A pass that fuses makes the working list strictly shorter and
  moves the index back by at most one; any other pass leaves the list and moves the index
  forward by one.  The increments of the fragmented-ORF counter in one call are at most the
  number of input regions.
\<close>

theorem check_adjacent_regions_terminates:
  "(\<exists>k\<le>2 * length lori.
       \<not> loop_guard ((adjacent_step set_iter cutoff ^^ k) (initial_state lori))
       \<and> adjacent_loop set_iter cutoff (initial_state lori)
           = (adjacent_step set_iter cutoff ^^ k) (initial_state lori))
   \<and> (\<forall>s. loop_guard s \<and> NewPseudoMade cutoff s \<longrightarrow>
         length (sorted_lori (adjacent_step set_iter cutoff s)) < length (sorted_lori s)
         \<and> idx s \<le> idx (adjacent_step set_iter cutoff s) + 1)
   \<and> (\<forall>s. loop_guard s \<and> \<not> NewPseudoMade cutoff s \<longrightarrow>
         sorted_lori (adjacent_step set_iter cutoff s) = sorted_lori s
         \<and> idx (adjacent_step set_iter cutoff s) = idx s + 1)
   \<and> fragmented_orfs_added set_iter lori cutoff \<le> length lori"
proof -
  have m: "2 * length (sorted_lori (initial_state lori)) - idx (initial_state lori) = 2 * length lori"
    by (simp add: initial_state_def)
  have a: "\<exists>k\<le>2 * length lori.
       \<not> loop_guard ((adjacent_step set_iter cutoff ^^ k) (initial_state lori))
       \<and> adjacent_loop set_iter cutoff (initial_state lori)
           = (adjacent_step set_iter cutoff ^^ k) (initial_state lori)"
    using adjacent_loop_steps [of "initial_state lori" set_iter cutoff] unfolding m .
  have b: "\<forall>s. loop_guard s \<and> NewPseudoMade cutoff s \<longrightarrow>
         length (sorted_lori (adjacent_step set_iter cutoff s)) < length (sorted_lori s)
         \<and> idx s \<le> idx (adjacent_step set_iter cutoff s) + 1"
  proof (intro allI impI)
    fix s assume "loop_guard s \<and> NewPseudoMade cutoff s"
    then have "loop_guard s" "NewPseudoMade cutoff s"
      by simp_all
    from adjacent_step_fuse(1) [OF this] adjacent_step_fuse(2) [OF this]
    show "length (sorted_lori (adjacent_step set_iter cutoff s)) < length (sorted_lori s)
         \<and> idx s \<le> idx (adjacent_step set_iter cutoff s) + 1"
      by (rule conjI)
  qed
  have c: "\<forall>s. loop_guard s \<and> \<not> NewPseudoMade cutoff s \<longrightarrow>
         sorted_lori (adjacent_step set_iter cutoff s) = sorted_lori s
         \<and> idx (adjacent_step set_iter cutoff s) = idx s + 1"
  proof (intro allI impI)
    fix s assume "loop_guard s \<and> \<not> NewPseudoMade cutoff s"
    then have "loop_guard s" "\<not> NewPseudoMade cutoff s"
      by simp_all
    from adjacent_step_move [OF this]
    show "sorted_lori (adjacent_step set_iter cutoff s) = sorted_lori s
         \<and> idx (adjacent_step set_iter cutoff s) = idx s + 1"
      by (simp add: record_individual_simps(1,2))
  qed
  show ?thesis
    by (rule conjI [OF a conjI [OF b conjI [OF c fragmented_orfs_bound]]])
qed

theorem check_adjacent_regions_terminates_witness:
  "loop_guard (initial_state [region_B, region_A, region_C])
   \<and> \<not> NewPseudoMade (3 / 5) (initial_state [region_B, region_A, region_C])
   \<and> idx (adjacent_step remdups (3 / 5) (initial_state [region_B, region_A, region_C])) = 1
   \<and> loop_guard (adjacent_step remdups (3 / 5) (initial_state [region_B, region_A, region_C]))
   \<and> NewPseudoMade (3 / 5) (adjacent_step remdups (3 / 5) (initial_state [region_B, region_A, region_C]))
   \<and> length (sorted_lori (adjacent_step remdups (3 / 5)
        (adjacent_step remdups (3 / 5) (initial_state [region_B, region_A, region_C])))) < 3
   \<and> fragmented_orfs_added remdups [region_B, region_A, region_C] (3 / 5) \<le> 3"
proof -
  let ?s0 = "initial_state [region_B, region_A, region_C]"
  let ?s1 = "adjacent_step remdups (3 / 5) ?s0"
  note t = check_adjacent_regions_terminates [of "[region_B, region_A, region_C]" remdups "3 / 5"]
  have g0: "loop_guard ?s0" and n0: "\<not> NewPseudoMade (3 / 5) ?s0"
    by code_simp+
  have g1: "loop_guard ?s1" and n1: "NewPseudoMade (3 / 5) ?s1"
    by code_simp+
  have i0: "idx ?s0 = 0" and l1: "length (sorted_lori ?s1) = 3"
    by code_simp+
  from t have move: "loop_guard ?s0 \<and> \<not> NewPseudoMade (3 / 5) ?s0 \<longrightarrow>
      sorted_lori ?s1 = sorted_lori ?s0 \<and> idx ?s1 = idx ?s0 + 1"
    by blast
  from t have fuse: "loop_guard ?s1 \<and> NewPseudoMade (3 / 5) ?s1 \<longrightarrow>
      length (sorted_lori (adjacent_step remdups (3 / 5) ?s1)) < length (sorted_lori ?s1)
      \<and> idx ?s1 \<le> idx (adjacent_step remdups (3 / 5) ?s1) + 1"
    by blast
  from t have cnt: "fragmented_orfs_added remdups [region_B, region_A, region_C] (3 / 5)
      \<le> length [region_B, region_A, region_C]"
    by blast
  from move g0 n0 i0 have "idx ?s1 = 1"
    by simp
  moreover from fuse g1 n1 l1 have "length (sorted_lori (adjacent_step remdups (3 / 5) ?s1)) < 3"
    by simp
  ultimately show ?thesis
    using g0 n0 g1 n1 cnt by simp
qed

lemma sorted_one_big:
  assumes "sorted (map f l)" and "length (filter (\<lambda>x. S \<le> f x) l) \<le> 1" and "k + 1 < length l"
  shows "f (l ! k) < (S::int)"
proof (rule ccontr)
  assume "\<not> f (l ! k) < S"
  then have k: "S \<le> f (l ! k)" by simp
  from assms(1,3) have "map f l ! k \<le> map f l ! (k + 1)"
    by (intro sorted_nth_mono) simp_all
  with assms(3) k have k1: "S \<le> f (l ! (k + 1))" by simp
  have "length (filter (\<lambda>x. S \<le> f x) (take k l @ [l ! k, l ! (k + 1)] @ drop (k + 2) l)) \<ge> 2"
    using k k1 by simp
  with split_pair [OF assms(3)] assms(2) show False by simp
qed

lemma filter_rest_le:
  "length (filter P (take i l @ drop j l)) \<le> length (filter P l)" if "i \<le> j"
proof -
  have "l = take i l @ take (j - i) (drop i l) @ drop j l"
    using that by (metis append_take_drop_id drop_drop add.commute le_add_diff_inverse)
  then have "length (filter P l)
      = length (filter P (take i l)) + length (filter P (take (j - i) (drop i l)))
        + length (filter P (drop j l))"
    by (metis filter_append length_append add.assoc)
  then show ?thesis by simp
qed

lemma new_pseudo_made_inv:
  assumes "standalone_inv S s" and "idx s + 1 < length (sorted_lori s)"
    and "start pseudo = start (sorted_lori s ! idx s)" and "idx s \<le> j"
  shows "standalone_inv S (new_pseudo_made s pseudo n (take (idx s) (sorted_lori s) @ drop j (sorted_lori s)))"
proof -
  let ?f = "\<lambda>r. ival (start r)" and ?l = "sorted_lori s"
  let ?rest = "take (idx s) ?l @ drop j ?l"
  from assms(1) have srt: "sorted (map ?f ?l)" and one: "length (filter (\<lambda>x. S \<le> ?f x) ?l) \<le> 1"
    and ind: "\<forall>x\<in>set (IndividualList s). ?f x < S"
    by (simp_all add: standalone_inv_def)
  from sorted_one_big [OF srt one assms(2)] assms(3) have small: "\<not> S \<le> ?f pseudo"
    by simp
  have "length (filter (\<lambda>x. S \<le> ?f x) (sort_key ?f (?rest @ [pseudo])))
        = length (filter (\<lambda>x. S \<le> ?f x) ?rest)"
    using small by (simp add: filter_sort)
  also have "\<dots> \<le> length (filter (\<lambda>x. S \<le> ?f x) ?l)"
    by (rule filter_rest_le [OF assms(4)])
  finally have "length (filter (\<lambda>x. S \<le> ?f x) (sort_key ?f (?rest @ [pseudo]))) \<le> 1"
    using one by simp
  with ind show ?thesis
    by (simp add: standalone_inv_def new_pseudo_made_def)
qed

lemma adjacent_step_inv:
  assumes "standalone_inv S s" and "loop_guard s"
  shows "standalone_inv S (adjacent_step set_iter cutoff s)"
proof -
  let ?f = "\<lambda>r. ival (start r)" and ?l = "sorted_lori s"
  from assms(2) have lt: "idx s + 1 < length ?l"
    by (simp add: loop_guard_def)
  from assms(1) have srt: "sorted (map ?f ?l)" and one: "length (filter (\<lambda>x. S \<le> ?f x) ?l) \<le> 1"
    and ind: "\<forall>x\<in>set (IndividualList s). ?f x < S"
    by (simp_all add: standalone_inv_def)
  have j: "start (join_regions set_iter (?l ! idx s) b) = start (?l ! idx s)" for b
    by (simp add: join_regions_def Let_def)
  have rec: "standalone_inv S (record_individual s)"
    using sorted_one_big [OF srt one lt] srt one ind
    by (auto simp: standalone_inv_def record_individual_def replace_by_start_def)
  show ?thesis
    unfolding adjacent_step_cases [OF assms(2)] Let_def
    using new_pseudo_made_inv [OF assms(1) lt j, of "idx s + 2"]
      new_pseudo_made_inv [OF assms(1) lt j, of "idx s + 3"] rec
    by simp
qed

lemma strict_last_not_recorded:
  assumes "filter (\<lambda>x. ival (start r) \<le> ival (start x)) lori = [r]"
  shows "r \<notin> set (fst (check_adjacent_regions set_iter lori cutoff))"
proof -
  define S where "S = ival (start r)"
  have "length (filter (\<lambda>x. S \<le> ival (start x)) (sort_key (\<lambda>r. ival (start r)) lori))
        = length (filter (\<lambda>x. S \<le> ival (start x)) lori)"
    by (simp only: filter_sort length_sort)
  also have "\<dots> = 1"
    using assms unfolding S_def by simp
  finally have "standalone_inv S (initial_state lori)"
    by (simp add: standalone_inv_def initial_state_def)
  then have "standalone_inv S (adjacent_loop set_iter cutoff (initial_state lori))"
    by (rule adjacent_loop_invariant [where P = "standalone_inv S"]) (rule adjacent_step_inv)
  then have all: "\<forall>x\<in>set (IndividualList (adjacent_loop set_iter cutoff (initial_state lori))).
      ival (start x) < S"
    by (simp add: standalone_inv_def)
  have out: "fst (check_adjacent_regions set_iter lori cutoff)
      = IndividualList (adjacent_loop set_iter cutoff (initial_state lori))"
    by (simp add: check_adjacent_regions_def Let_def)
  show ?thesis
  proof
    assume "r \<in> set (fst (check_adjacent_regions set_iter lori cutoff))"
    with all out have "ival (start r) < S"
      by simp
    then show False
      by (simp add: S_def)
  qed
qed

lemma single_region: "check_adjacent_regions set_iter [r] cutoff = ([], [])"
proof -
  have "\<not> loop_guard (initial_state [r])"
    by (simp add: loop_guard_def initial_state_def)
  then have "adjacent_loop set_iter cutoff (initial_state [r]) = initial_state [r]"
    by (simp add: adjacent_loop_unfold [of set_iter cutoff "initial_state [r]"])
  then show ?thesis
    by (simp add: check_adjacent_regions_def initial_state_def)
qed

text \<open>
  C10.  On a list of one region both outputs are empty.  In every pass the only region the
  standalone-recording step can add is the one at the index, which is below the last
  position of the working list.  Hence a region that starts strictly after all others of
  the input is never in the standalone output, whatever its note.
\<close>

theorem last_region_never_standalone:
  "check_adjacent_regions set_iter [r] cutoff = ([], [])
   \<and> (\<forall>s. loop_guard s \<longrightarrow>
        idx s < length (sorted_lori s) - 1
        \<and> (IndividualList (adjacent_step set_iter cutoff s) = IndividualList s
           \<or> IndividualList (adjacent_step set_iter cutoff s)
               = replace_by_start (sorted_lori s ! idx s) (IndividualList s)))
   \<and> (filter (\<lambda>x. ival (start r) \<le> ival (start x)) lori = [r]
        \<longrightarrow> r \<notin> set (fst (check_adjacent_regions set_iter lori cutoff)))"
proof -
  have b: "idx s < length (sorted_lori s) - 1
        \<and> (IndividualList (adjacent_step set_iter cutoff s) = IndividualList s
           \<or> IndividualList (adjacent_step set_iter cutoff s)
               = replace_by_start (sorted_lori s ! idx s) (IndividualList s))"
    if g: "loop_guard s" for s
  proof (cases "NewPseudoMade cutoff s")
    case True
    from adjacent_step_fuse(3) [OF g True] g show ?thesis
      by (simp add: loop_guard_def)
  next
    case False
    from adjacent_step_move [OF g False] record_individual_simps(5) [of s] g show ?thesis
      by (auto simp: loop_guard_def)
  qed
  from single_region b strict_last_not_recorded show ?thesis
    by blast
qed

theorem last_region_never_standalone_witness:
  "filter (\<lambda>x. ival (start far_orf) \<le> ival (start x)) [flagged_orf, far_orf] = [far_orf]
   \<and> sublist ''Note=pseudogene candidate. Reason: ORF'' (note' far_orf)
   \<and> far_orf \<notin> set (fst (check_adjacent_regions remdups [flagged_orf, far_orf] (3 / 10)))
   \<and> loop_guard (initial_state [flagged_orf, far_orf])
   \<and> idx (initial_state [flagged_orf, far_orf]) < length (sorted_lori (initial_state [flagged_orf, far_orf])) - 1"
proof -
  note t = last_region_never_standalone [of remdups far_orf "3 / 10" "[flagged_orf, far_orf]"]
  have f: "filter (\<lambda>x. ival (start far_orf) \<le> ival (start x)) [flagged_orf, far_orf] = [far_orf]"
    by code_simp
  have n: "sublist ''Note=pseudogene candidate. Reason: ORF'' (note' far_orf)"
    by code_simp
  have g: "loop_guard (initial_state [flagged_orf, far_orf])"
    by code_simp
  from t f have "far_orf \<notin> set (fst (check_adjacent_regions remdups [flagged_orf, far_orf] (3 / 10)))"
    by blast
  moreover from t g have "idx (initial_state [flagged_orf, far_orf])
      < length (sorted_lori (initial_state [flagged_orf, far_orf])) - 1"
    by blast
  ultimately show ?thesis
    using f n g by blast
qed

text \<open>The second of two flagged regions that do not merge is not reported.\<close>

lemma two_flagged_regions:
  "check_adjacent_regions remdups [flagged_orf, far_orf] (3 / 10) = ([flagged_orf], [])"
  by code_simp

text \<open>
  What the identity test does establish: no two entries of an output list start at the same
  integer object.  For start coordinates from -5 to 256 that is the property by value.
\<close>

lemma replace_by_start_objects:
  assumes "sorted_wrt (\<lambda>a b. \<not> py_is (start a) (start b)) xs"
  shows "sorted_wrt (\<lambda>a b. \<not> py_is (start a) (start b)) (replace_by_start pseudo xs)"
  using assms by (auto simp: replace_by_start_def sorted_wrt_append sorted_wrt_filter)

lemma output_lists_objects:
  "sorted_wrt (\<lambda>a b. \<not> py_is (start a) (start b)) (fst (check_adjacent_regions set_iter lori cutoff))
   \<and> sorted_wrt (\<lambda>a b. \<not> py_is (start a) (start b)) (snd (check_adjacent_regions set_iter lori cutoff))"
proof -
  let ?ok = "sorted_wrt (\<lambda>a b. \<not> py_is (start a) (start b))"
  let ?P = "\<lambda>s. ?ok (IndividualList s) \<and> ?ok (MergedList s)"
  have "?P (initial_state lori)"
    by (simp add: initial_state_def)
  then have "?P (adjacent_loop set_iter cutoff (initial_state lori))"
  proof (rule adjacent_loop_invariant [where P = ?P])
    fix s assume p: "?P s" and g: "loop_guard s"
    have n: "?P (new_pseudo_made s pseudo n rest)" for pseudo n rest
      using p by (simp add: new_pseudo_made_def replace_by_start_objects)
    have r: "?P (record_individual s)"
      using p by (simp add: record_individual_def replace_by_start_objects)
    show "?P (adjacent_step set_iter cutoff s)"
      unfolding adjacent_step_cases [OF g] Let_def using n r by simp
  qed
  then show ?thesis
    by (simp add: check_adjacent_regions_def Let_def)
qed

lemma py_is_small:
  assumes "- 5 \<le> ival a" and "ival a \<le> 256"
  shows "py_is a b \<longleftrightarrow> ival a = ival b"
  using assms by (auto simp: py_is_def)

text \<open>
  C3, evaluated.  \<open>region_B\<close> and \<open>region_A\<close> start at 1000, as two integer objects.
  With the cutoff 3/5 the engine first fuses \<open>region_A\<close> with \<open>region_C\<close>, then
  \<open>region_B\<close> with the result.  The second fused region starts at the start of
  \<open>region_B\<close>, which is not the object the first one starts at, so the first stays in
  \<^verbatim>\<open>MergedList\<close>: two entries with start coordinate 1000.  In the same way two standalone
  candidates that start at 1000 both stay in \<^verbatim>\<open>IndividualList\<close>.
\<close>

theorem same_start_twice:
  "map (\<lambda>r. (start r, end' r))
     (snd (check_adjacent_regions remdups [region_B, region_A, region_C] (3 / 5)))
     = [(PyInt 1000 2, 1500), (PyInt 1000 1, 1500)]
   \<and> map (\<lambda>r. (start r, end' r))
     (fst (check_adjacent_regions remdups [flagged_orf, twin_orf, far_orf] (3 / 5)))
     = [(PyInt 1000 0, 1150), (PyInt 1000 7, 1150)]"
  by code_simp

end
